theory Spec2Isabelle
  imports Complex_Main
begin

section \<open>MiniMon disk rolling-log feed (\<^verbatim>\<open>minimon_feed.py\<close>)\<close>

text \<open>
  The script builds three log paths from an output directory, writes a start marker,
  loops forever writing one numbered line every ten seconds, and on the way out writes
  an end line to the run log and a stop marker. Everything it does is a call into its
  environment (clock, process id, files, console, sleep), so the model is a state
  passed through those calls, together with an immutable description of how the
  environment answers.
\<close>

subsection \<open>Exceptions, calls and the environment\<close>

text \<open>
  The exceptions that can travel through the script: \<^verbatim>\<open>sys.exit(1)\<close> raises
  \<^verbatim>\<open>SystemExit\<close>, a failing \<^verbatim>\<open>open\<close> or \<^verbatim>\<open>write\<close> raises \<^verbatim>\<open>OSError\<close>
  (\<^verbatim>\<open>IOError\<close> is the same class), an interrupt raises \<^verbatim>\<open>KeyboardInterrupt\<close>, and
  reading an unbound global raises \<^verbatim>\<open>NameError\<close>.
\<close>

datatype exc = KeyboardInterrupt | OSError | SystemExit int | NameError

text \<open>The calls the script makes into its environment, in the order it makes them.\<close>

datatype call =
    GetPid
  | Time
  | Strftime string
  | Open string
  | Print string
  | Write string string
  | Close string
  | Sleep nat

text \<open>\<^verbatim>\<open>time.struct_time\<close>, the fields \<^verbatim>\<open>strftime\<close> reads.\<close>

record struct_time =
  tm_year :: nat
  tm_mon :: nat
  tm_mday :: nat
  tm_hour :: nat
  tm_min :: nat
  tm_sec :: nat

text \<open>
  How the environment answers. Calls are numbered from 0 in the order they are made;
  \<open>time_at n\<close> and \<open>localtime_at n\<close> are the clock readings a call numbered \<open>n\<close> gets,
  and \<open>fault n\<close> is the exception, if any, that call number \<open>n\<close> raises instead of
  completing. Only \<^verbatim>\<open>open\<close>, \<^verbatim>\<open>write\<close> and \<^verbatim>\<open>time.sleep\<close> consult \<open>fault\<close>: they are
  the calls that can fail or block, and an interrupt is taken to be delivered at one of
  them.
\<close>

record env =
  argv :: "string list"
  getpid :: int
  time_at :: "nat \<Rightarrow> real"
  localtime_at :: "nat \<Rightarrow> struct_time"
  fault :: "nat \<Rightarrow> exc option"

text \<open>The class \<^verbatim>\<open>MiniMonFeed\<close>: the five attributes \<^verbatim>\<open>__init__\<close> assigns.\<close>

record MiniMonFeed =
  output_dir :: string
  pid :: int
  start_log_path :: string
  run_log_path :: string
  stop_log_path :: string

text \<open>
  The state: the module global \<^verbatim>\<open>feed\<close> (\<open>None\<close> while unbound), the file system as
  a map from path to content, the bytes written to standard output, and the calls made
  so far.
\<close>

record state =
  feed :: "MiniMonFeed option"
  files :: "string \<rightharpoonup> string"
  stdout :: string
  calls :: "call list"

definition tick :: "state \<Rightarrow> nat" where
  "tick s = length (calls s)"

definition env_call :: "call \<Rightarrow> state \<Rightarrow> state" where
  "env_call c s = s\<lparr>calls := calls s @ [c]\<rparr>"

text \<open>The content of a file, empty when the file does not exist.\<close>

definition content :: "(string \<rightharpoonup> string) \<Rightarrow> string \<Rightarrow> string" where
  "content fs p = (case fs p of None \<Rightarrow> [] | Some c \<Rightarrow> c)"

subsection \<open>Library functions the script calls\<close>

text \<open>\<^verbatim>\<open>str\<close> of an integer, as an f-string renders it.\<close>

fun str_nat :: "nat \<Rightarrow> string" where
  "str_nat n =
     (if n < 10 then [''0123456789'' ! n]
      else str_nat (n div 10) @ [''0123456789'' ! (n mod 10)])"

declare str_nat.simps [simp del]

definition py_str :: "int \<Rightarrow> string" where
  "py_str i = (if i < 0 then CHR ''-'' # str_nat (nat (- i)) else str_nat (nat i))"

text \<open>\<^verbatim>\<open>int\<close> of a float truncates toward zero.\<close>

definition py_int :: "real \<Rightarrow> int" where
  "py_int x = (if 0 \<le> x then \<lfloor>x\<rfloor> else \<lceil>x\<rceil>)"

text \<open>
  \<^verbatim>\<open>os.path.join\<close> of two components (\<^verbatim>\<open>posixpath\<close>): an absolute second component
  replaces the first; otherwise a separator is inserted unless the first component is
  empty or already ends in one.
\<close>

definition os_path_join :: "string \<Rightarrow> string \<Rightarrow> string" where
  "os_path_join a b =
     (if b \<noteq> [] \<and> hd b = CHR ''/'' then b
      else if a = [] \<or> last a = CHR ''/'' then a @ b
      else a @ ''/'' @ b)"

text \<open>
  \<^verbatim>\<open>time.strftime\<close> on a broken-down time, for the directives the script uses; two-digit
  fields are zero-padded, the year is printed in decimal.
\<close>

definition pad2 :: "nat \<Rightarrow> string" where
  "pad2 n = (if n < 10 then CHR ''0'' # str_nat n else str_nat n)"

definition directive :: "char \<Rightarrow> struct_time \<Rightarrow> string" where
  "directive c t =
     (if c = CHR ''Y'' then str_nat (tm_year t)
      else if c = CHR ''m'' then pad2 (tm_mon t)
      else if c = CHR ''d'' then pad2 (tm_mday t)
      else if c = CHR ''H'' then pad2 (tm_hour t)
      else if c = CHR ''M'' then pad2 (tm_min t)
      else if c = CHR ''S'' then pad2 (tm_sec t)
      else [CHR ''%'', c])"

fun strftime :: "string \<Rightarrow> struct_time \<Rightarrow> string" where
  "strftime [] t = []"
| "strftime [c] t = [c]"
| "strftime (c # d # cs) t =
     (if c = CHR ''%'' then directive d t @ strftime cs t else c # strftime (d # cs) t)"

subsection \<open>Calls into the environment\<close>

definition os_getpid :: "env \<Rightarrow> state \<Rightarrow> int \<times> state" where
  "os_getpid e s = (getpid e, env_call GetPid s)"

definition time_time :: "env \<Rightarrow> state \<Rightarrow> real \<times> state" where
  "time_time e s = (time_at e (tick s), env_call Time s)"

definition time_strftime :: "env \<Rightarrow> string \<Rightarrow> state \<Rightarrow> string \<times> state" where
  "time_strftime e fmt s = (strftime fmt (localtime_at e (tick s)), env_call (Strftime fmt) s)"

text \<open>
  \<^verbatim>\<open>print(x)\<close> writes \<open>x\<close> and then a newline to standard output. It is taken
  not to raise.
\<close>

definition builtin_print :: "string \<Rightarrow> state \<Rightarrow> state" where
  "builtin_print x s = (env_call (Print x) s)\<lparr>stdout := stdout s @ x @ [CHR 0x0A]\<rparr>"

text \<open>
  \<^verbatim>\<open>open(path, 'a', buffering=1)\<close>: on success the file exists afterwards (created
  empty when it was missing) and its content is otherwise untouched. The handle is
  the path.
\<close>

definition builtin_open :: "env \<Rightarrow> string \<Rightarrow> state \<Rightarrow> (exc + string) \<times> state" where
  "builtin_open e path s =
     (case fault e (tick s) of
        Some x \<Rightarrow> (Inl x, env_call (Open path) s)
      | None \<Rightarrow> (Inr path, (env_call (Open path) s)\<lparr>files := (files s)(path \<mapsto> content (files s) path)\<rparr>))"

text \<open>
  \<^verbatim>\<open>f.write(data)\<close> on a line-buffered file opened for appending: the data ends in a
  newline, so it reaches the file before the call returns. A write that raises adds
  nothing.
\<close>

definition file_write :: "env \<Rightarrow> string \<Rightarrow> string \<Rightarrow> state \<Rightarrow> (exc + unit) \<times> state" where
  "file_write e f data s =
     (case fault e (tick s) of
        Some x \<Rightarrow> (Inl x, env_call (Write f data) s)
      | None \<Rightarrow> (Inr (), (env_call (Write f data) s)\<lparr>files := (files s)(f \<mapsto> content (files s) f @ data)\<rparr>))"

definition file_close :: "string \<Rightarrow> state \<Rightarrow> state" where
  "file_close f s = env_call (Close f) s"

definition time_sleep :: "env \<Rightarrow> nat \<Rightarrow> state \<Rightarrow> (exc + unit) \<times> state" where
  "time_sleep e n s =
     (case fault e (tick s) of
        Some x \<Rightarrow> (Inl x, env_call (Sleep n) s)
      | None \<Rightarrow> (Inr (), env_call (Sleep n) s))"

subsection \<open>Control flow\<close>

text \<open>
  \<^verbatim>\<open>try: ... finally: ...\<close> once the body has ended with result \<open>r\<close>: the handler runs
  in the state the body left; if the handler raises, its exception replaces \<open>r\<close>.
\<close>

definition try_finally :: "(exc + 'a) \<Rightarrow> (exc + unit) \<times> state \<Rightarrow> (exc + 'a) \<times> state" where
  "try_finally r h = (case h of (Inl x, s) \<Rightarrow> (Inl x, s) | (Inr _, s) \<Rightarrow> (r, s))"

subsection \<open>The class\<close>

text \<open>\<^verbatim>\<open>MiniMonFeed.__init__\<close>\<close>

definition init :: "env \<Rightarrow> string \<Rightarrow> state \<Rightarrow> MiniMonFeed \<times> state" where
  "init e dir s =
     (let (p, s1) = os_getpid e s;
          start = os_path_join dir ''start.log'';
          (t, s2) = time_time e s1;
          run = os_path_join dir (py_str (py_int t) @ ''_'' @ py_str p @ ''_run.log'');
          stop = os_path_join dir ''stop.log''
      in (\<lparr>output_dir = dir, pid = p, start_log_path = start, run_log_path = run,
           stop_log_path = stop\<rparr>, s2))"

text \<open>\<^verbatim>\<open>MiniMonFeed._write_log\<close> (an Isabelle name cannot start with an underscore).\<close>

definition fmt :: string where
  "fmt = ''%Y-%m-%d %H:%M:%S''"

definition write_log :: "env \<Rightarrow> string \<Rightarrow> string \<Rightarrow> state \<Rightarrow> (exc + unit) \<times> state" where
  "write_log e path message s =
     (case builtin_open e path s of
        (Inl x, s1) \<Rightarrow> (Inl x, s1)
      | (Inr f, s1) \<Rightarrow>
          (let (ts1, s2) = time_strftime e fmt s1;
               s3 = builtin_print (ts1 @ '': '' @ message @ [CHR 0x0A]) s2;
               (ts2, s4) = time_strftime e fmt s3;
               (r, s5) = file_write e f (ts2 @ '': '' @ message @ [CHR 0x0A]) s4
           in (r, file_close f s5)))"

text \<open>\<^verbatim>\<open>MiniMonFeed.start_log\<close>\<close>

definition start_log :: "env \<Rightarrow> MiniMonFeed \<Rightarrow> state \<Rightarrow> (exc + unit) \<times> state" where
  "start_log e self s =
     write_log e (start_log_path self) (py_str (pid self) @ '': Program started'') s"

text \<open>
  The \<^verbatim>\<open>while True\<close> loop of \<^verbatim>\<open>run_log\<close>, entered with the local \<open>i\<close>. It has no exit
  of its own: it ends only when a call raises, and \<open>None\<close> is the run that never ends.
\<close>

partial_function (option) run_loop ::
  "env \<Rightarrow> MiniMonFeed \<Rightarrow> int \<Rightarrow> state \<Rightarrow> ((exc + unit) \<times> state) option" where
  "run_loop e self i s =
     (case write_log e (run_log_path self) (''INFO: Running log message '' @ py_str (i + 1)) s of
        (Inl x, s1) \<Rightarrow> Some (Inl x, s1)
      | (Inr _, s1) \<Rightarrow>
          (case time_sleep e 10 s1 of
             (Inl x, s2) \<Rightarrow> Some (Inl x, s2)
           | (Inr _, s2) \<Rightarrow> run_loop e self (i + 1) s2))"

text \<open>
  \<^verbatim>\<open>MiniMonFeed.run_log\<close>: first the suite of its \<^verbatim>\<open>try\<close>, then the method, which
  runs the \<^verbatim>\<open>finally\<close> clause once the suite has ended.
\<close>

definition run_log_try :: "env \<Rightarrow> MiniMonFeed \<Rightarrow> state \<Rightarrow> ((exc + unit) \<times> state) option" where
  "run_log_try e self s =
     (case write_log e (run_log_path self) (''Start logging: '' @ py_str (pid self)) s of
        (Inl x, s1) \<Rightarrow> Some (Inl x, s1)
      | (Inr _, s1) \<Rightarrow> run_loop e self 0 s1)"

definition run_log :: "env \<Rightarrow> MiniMonFeed \<Rightarrow> state \<Rightarrow> ((exc + unit) \<times> state) option" where
  "run_log e self s =
     (case run_log_try e self s of
        None \<Rightarrow> None
      | Some (r, s2) \<Rightarrow>
          Some (try_finally r
                  (write_log e (run_log_path self) (''End logging: '' @ py_str (pid self)) s2)))"

text \<open>\<^verbatim>\<open>MiniMonFeed.stop_log\<close>\<close>

definition stop_log :: "env \<Rightarrow> MiniMonFeed \<Rightarrow> state \<Rightarrow> (exc + unit) \<times> state" where
  "stop_log e self s =
     write_log e (stop_log_path self)
       (''End logging '' @ py_str (pid self) @ '': Program stopped'') s"

subsection \<open>The script\<close>

text \<open>
  A method call \<^verbatim>\<open>feed.m()\<close> at module level reads the global \<^verbatim>\<open>feed\<close> when it is
  made.
\<close>

definition on_feed :: "(MiniMonFeed \<Rightarrow> state \<Rightarrow> 'a) \<Rightarrow> (state \<Rightarrow> 'a) \<Rightarrow> state \<Rightarrow> 'a" where
  "on_feed m unbound s = (case feed s of None \<Rightarrow> unbound s | Some self \<Rightarrow> m self s)"

definition usage :: string where
  "usage = ''Usage: python minimon_feed.py <output_dir>''"

text \<open>
  The \<^verbatim>\<open>__main__\<close> block: the suite of its \<^verbatim>\<open>try\<close>, then the block. The result is how
  the interpreter leaves it: \<open>Inr ()\<close> for falling off the end, \<open>Inl x\<close> for the
  exception \<open>x\<close> that nothing caught.
\<close>

definition main_try :: "env \<Rightarrow> state \<Rightarrow> ((exc + unit) \<times> state) option" where
  "main_try e s =
     (case on_feed (start_log e) (\<lambda>s. (Inl NameError, s)) s of
        (Inl x, s1) \<Rightarrow> Some (Inl x, s1)
      | (Inr _, s1) \<Rightarrow> on_feed (run_log e) (\<lambda>s. Some (Inl NameError, s)) s1)"

definition main :: "env \<Rightarrow> state \<Rightarrow> ((exc + unit) \<times> state) option" where
  "main e s =
     (if length (argv e) \<noteq> 2 then Some (Inl (SystemExit 1), builtin_print usage s)
      else
        (let dir = argv e ! 1;
             (obj, s1) = init e dir s;
             s2 = s1\<lparr>feed := Some obj\<rparr>
         in (case main_try e s2 of
               None \<Rightarrow> None
             | Some (r, s3) \<Rightarrow>
                 Some (try_finally r (on_feed (stop_log e) (\<lambda>s. (Inl NameError, s)) s3)))))"

text \<open>
  The exit status of the process: 0 when the script falls off the end, the argument of
  \<^verbatim>\<open>sys.exit\<close> for \<^verbatim>\<open>SystemExit\<close>, 1 for any other uncaught exception, except that an
  uncaught \<^verbatim>\<open>KeyboardInterrupt\<close> ends the process through the interrupt signal, which a
  shell reports as 130.
\<close>

definition exit_status :: "(exc + unit) \<Rightarrow> int" where
  "exit_status r =
     (case r of
        Inr _ \<Rightarrow> 0
      | Inl (SystemExit n) \<Rightarrow> n
      | Inl KeyboardInterrupt \<Rightarrow> 130
      | Inl _ \<Rightarrow> 1)"

subsection \<open>Notation for the statements\<close>

text \<open>
  \<open>stamp e n\<close> is what \<^verbatim>\<open>time.strftime('%Y-%m-%d %H:%M:%S')\<close> returns when it is call
  number \<open>n\<close>, and \<open>log_line ts message\<close> is the f-string of \<^verbatim>\<open>_write_log\<close> for the
  timestamp \<open>ts\<close>.
\<close>

definition stamp :: "env \<Rightarrow> nat \<Rightarrow> string" where
  "stamp e n = strftime fmt (localtime_at e n)"

definition log_line :: "string \<Rightarrow> string \<Rightarrow> string" where
  "log_line ts message = ts @ '': '' @ message @ [CHR 0x0A]"

text \<open>A broken-down time whose year has four digits and whose other fields have at most two.\<close>

definition valid_time :: "struct_time \<Rightarrow> bool" where
  "valid_time t \<longleftrightarrow>
     1000 \<le> tm_year t \<and> tm_year t < 10000 \<and> tm_mon t < 100 \<and> tm_mday t < 100 \<and>
     tm_hour t < 100 \<and> tm_min t < 100 \<and> tm_sec t < 100"

text \<open>The paths of the \<^verbatim>\<open>open\<close> calls in a list of calls, in order.\<close>

fun opened :: "call list \<Rightarrow> string list" where
  "opened [] = []"
| "opened (Open q # cs) = q # opened cs"
| "opened (c # cs) = opened cs"

text \<open>
  \<open>framed e P s s'\<close>: from \<open>s\<close> to \<open>s'\<close> the global \<^verbatim>\<open>feed\<close> is unchanged, only files
  in \<open>P\<close> may have changed, and the calls of \<open>s'\<close> extend those of \<open>s\<close> by calls that
  open only files in \<open>P\<close>.
\<close>

definition framed :: "env \<Rightarrow> string set \<Rightarrow> state \<Rightarrow> state \<Rightarrow> bool" where
  "framed e P s s' \<longleftrightarrow>
     feed s' = feed s \<and>
     (\<forall>q. q \<notin> P \<longrightarrow> files s' q = files s q) \<and>
     (\<exists>cs. calls s' = calls s @ cs \<and> set (opened cs) \<subseteq> P)"

text \<open>\<open>quiet e a b\<close>: no call numbered from \<open>a\<close> up to, not including, \<open>b\<close> raises.\<close>

definition quiet :: "env \<Rightarrow> nat \<Rightarrow> nat \<Rightarrow> bool" where
  "quiet e a b \<longleftrightarrow> (\<forall>n \<in> {a..<b}. fault e n = None)"

text \<open>The messages of \<^verbatim>\<open>run_log\<close>, \<^verbatim>\<open>start_log\<close> and \<^verbatim>\<open>stop_log\<close>.\<close>

definition info_msg :: "int \<Rightarrow> string" where
  "info_msg j = ''INFO: Running log message '' @ py_str j"

definition run_start_msg :: "MiniMonFeed \<Rightarrow> string" where
  "run_start_msg self = ''Start logging: '' @ py_str (pid self)"

definition run_end_msg :: "MiniMonFeed \<Rightarrow> string" where
  "run_end_msg self = ''End logging: '' @ py_str (pid self)"

definition started_msg :: "MiniMonFeed \<Rightarrow> string" where
  "started_msg self = py_str (pid self) @ '': Program started''"

definition stopped_msg :: "MiniMonFeed \<Rightarrow> string" where
  "stopped_msg self = ''End logging '' @ py_str (pid self) @ '': Program stopped''"

text \<open>
  What \<open>os_path_join\<close> puts in front of a relative name, and the name of the run log
  when \<^verbatim>\<open>time.time()\<close> is call number \<open>n\<close>.
\<close>

definition dir_prefix :: "string \<Rightarrow> string" where
  "dir_prefix dir = (if dir = [] \<or> last dir = CHR ''/'' then dir else dir @ ''/'')"

definition run_log_name :: "env \<Rightarrow> nat \<Rightarrow> string" where
  "run_log_name e n = py_str (py_int (time_at e n)) @ ''_'' @ py_str (getpid e) @ ''_run.log''"

subsection \<open>Concrete environments\<close>

text \<open>
  A process with id 100 started at epoch second 1700000000. In \<open>demo_env\<close> the
  local clock shows 22:13:20 plus one second per call made; in \<open>frozen_env\<close> it
  stands still.
\<close>

definition demo_time :: struct_time where
  "demo_time =
     \<lparr>tm_year = 2023, tm_mon = 11, tm_mday = 14, tm_hour = 22, tm_min = 13, tm_sec = 20\<rparr>"

definition demo_env :: "string list \<Rightarrow> (nat \<Rightarrow> exc option) \<Rightarrow> env" where
  "demo_env av fl =
     \<lparr>argv = av, getpid = 100, time_at = (\<lambda>n. 1700000000.75),
      localtime_at = (\<lambda>n. demo_time\<lparr>tm_sec := 20 + n\<rparr>), fault = fl\<rparr>"

definition frozen_env :: "(nat \<Rightarrow> exc option) \<Rightarrow> env" where
  "frozen_env fl = (demo_env [] fl)\<lparr>localtime_at := (\<lambda>n. demo_time)\<rparr>"

definition demo_argv :: "string list" where
  "demo_argv = [''minimon_feed.py'', ''/tmp/x'']"

definition fault_at :: "nat \<Rightarrow> exc \<Rightarrow> nat \<Rightarrow> exc option" where
  "fault_at c x n = (if n = c then Some x else None)"

definition no_fault :: "nat \<Rightarrow> exc option" where
  "no_fault n = None"

definition faults_at :: "nat list \<Rightarrow> exc \<Rightarrow> nat \<Rightarrow> exc option" where
  "faults_at cs x n = (if n \<in> set cs then Some x else None)"

text \<open>The logger of process 100 for the directory \<^verbatim>\<open>/tmp/x\<close>.\<close>

definition demo_feed :: MiniMonFeed where
  "demo_feed =
     \<lparr>output_dir = ''/tmp/x'', pid = 100, start_log_path = ''/tmp/x/start.log'',
      run_log_path = ''/tmp/x/1700000000_100_run.log'', stop_log_path = ''/tmp/x/stop.log''\<rparr>"

text \<open>A state with nothing in it, and one in which \<^verbatim>\<open>start.log\<close> already has a line.\<close>

definition fresh :: state where
  "fresh = \<lparr>feed = None, files = Map.empty, stdout = [], calls = []\<rparr>"

definition old_state :: state where
  "old_state =
     \<lparr>feed = None, files = [''/tmp/x/start.log'' \<mapsto> ''earlier'' @ [CHR 0x0A]],
      stdout = ''seen'', calls = [GetPid, Time]\<rparr>"

section \<open>Properties\<close>

subsection \<open>One call of \<open>write_log\<close>\<close>

lemma content_upd_same: "content (fs(p \<mapsto> c)) p = c"
  by (simp add: content_def)

text \<open>
  The three ways a call can go: the open raises; the open succeeds and the write
  raises; both succeed. The write is the fifth call \<open>write_log\<close> makes.
\<close>

lemma write_log_open_fault:
  assumes "fault e (tick s) = Some x"
  shows "write_log e p m s = (Inl x, s\<lparr>calls := calls s @ [Open p]\<rparr>)"
  using assms by (simp add: write_log_def builtin_open_def env_call_def)

lemma write_log_write_fault:
  assumes "fault e (tick s) = None" and "fault e (tick s + 4) = Some x"
  shows "write_log e p m s =
     (Inl x, s\<lparr>files := (files s)(p \<mapsto> content (files s) p),
              stdout := stdout s @ log_line (stamp e (tick s + 1)) m @ [CHR 0x0A],
              calls := calls s @ [Open p, Strftime fmt, Print (log_line (stamp e (tick s + 1)) m),
                 Strftime fmt, Write p (log_line (stamp e (tick s + 3)) m), Close p]\<rparr>)"
  using assms
  by (simp add: write_log_def builtin_open_def time_strftime_def builtin_print_def
      file_write_def file_close_def env_call_def tick_def stamp_def log_line_def Let_def
      eval_nat_numeral)

lemma write_log_ok:
  assumes "fault e (tick s) = None" and "fault e (tick s + 4) = None"
  shows "write_log e p m s =
     (Inr (), s\<lparr>files := (files s)(p \<mapsto> content (files s) p @ log_line (stamp e (tick s + 3)) m),
              stdout := stdout s @ log_line (stamp e (tick s + 1)) m @ [CHR 0x0A],
              calls := calls s @ [Open p, Strftime fmt, Print (log_line (stamp e (tick s + 1)) m),
                 Strftime fmt, Write p (log_line (stamp e (tick s + 3)) m), Close p]\<rparr>)"
  using assms
  by (simp add: write_log_def builtin_open_def time_strftime_def builtin_print_def
      file_write_def file_close_def env_call_def tick_def stamp_def log_line_def content_def
      Let_def eval_nat_numeral)

lemma write_log_cases:
  obtains (open_fault) x where "fault e (tick s) = Some x"
      "write_log e p m s = (Inl x, s\<lparr>calls := calls s @ [Open p]\<rparr>)"
  | (write_fault) x where "fault e (tick s) = None" "fault e (tick s + 4) = Some x"
      "write_log e p m s =
         (Inl x, s\<lparr>files := (files s)(p \<mapsto> content (files s) p),
              stdout := stdout s @ log_line (stamp e (tick s + 1)) m @ [CHR 0x0A],
              calls := calls s @ [Open p, Strftime fmt, Print (log_line (stamp e (tick s + 1)) m),
                 Strftime fmt, Write p (log_line (stamp e (tick s + 3)) m), Close p]\<rparr>)"
  | (ok) "fault e (tick s) = None" "fault e (tick s + 4) = None"
      "write_log e p m s =
         (Inr (), s\<lparr>files := (files s)(p \<mapsto> content (files s) p @ log_line (stamp e (tick s + 3)) m),
              stdout := stdout s @ log_line (stamp e (tick s + 1)) m @ [CHR 0x0A],
              calls := calls s @ [Open p, Strftime fmt, Print (log_line (stamp e (tick s + 1)) m),
                 Strftime fmt, Write p (log_line (stamp e (tick s + 3)) m), Close p]\<rparr>)"
proof (cases "fault e (tick s)")
  case (Some x)
  then show ?thesis using open_fault write_log_open_fault by blast
next
  case None
  show ?thesis
  proof (cases "fault e (tick s + 4)")
    case (Some x)
    then show ?thesis using None write_fault write_log_write_fault by blast
  next
    case n4: None
    then show ?thesis using None ok write_log_ok by blast
  qed
qed

text \<open>The timestamp, field by field.\<close>

lemma stamp_expand:
  "stamp e n =
     (let t = localtime_at e n
      in str_nat (tm_year t) @ ''-'' @ pad2 (tm_mon t) @ ''-'' @ pad2 (tm_mday t) @ '' '' @
         pad2 (tm_hour t) @ '':'' @ pad2 (tm_min t) @ '':'' @ pad2 (tm_sec t))"
  by (simp add: stamp_def fmt_def directive_def Let_def)

text \<open>With a four-digit year the timestamp has the 19 characters of \<^verbatim>\<open>YYYY-MM-DD HH:MM:SS\<close>.\<close>

lemma str_nat_length_1: "n < 10 \<Longrightarrow> length (str_nat n) = 1"
  by (subst str_nat.simps) simp

lemma str_nat_length_2: "10 \<le> n \<Longrightarrow> n < 100 \<Longrightarrow> length (str_nat n) = 2"
  by (subst str_nat.simps) (simp add: str_nat_length_1)

lemma str_nat_length_4: "1000 \<le> n \<Longrightarrow> n < 10000 \<Longrightarrow> length (str_nat n) = 4"
proof -
  assume a: "1000 \<le> n" "n < 10000"
  then have "10 \<le> n div 10 div 10" "n div 10 div 10 < 100" by simp_all
  then have "length (str_nat (n div 10 div 10)) = 2" by (rule str_nat_length_2)
  then have "length (str_nat (n div 10)) = 3"
    using a by (subst str_nat.simps) simp
  then show ?thesis
    using a by (subst str_nat.simps) simp
qed

lemma pad2_length: "n < 100 \<Longrightarrow> length (pad2 n) = 2"
  by (cases "n < 10") (simp_all add: pad2_def str_nat_length_1 str_nat_length_2)

lemma stamp_length: "valid_time (localtime_at e n) \<Longrightarrow> length (stamp e n) = 19"
  by (simp add: stamp_expand Let_def valid_time_def str_nat_length_4 pad2_length)

lemmas demo_simps = demo_env_def demo_time_def frozen_env_def fault_at_def no_fault_def
  faults_at_def demo_feed_def demo_argv_def
  fresh_def old_state_def tick_def stamp_def fmt_def directive_def pad2_def str_nat.simps
  content_def log_line_def

subsection \<open>Paths\<close>

lemma str_nat_digits: "str_nat n \<noteq> [] \<and> set (str_nat n) \<subseteq> set ''0123456789''"
proof (induction n rule: str_nat.induct)
  case (1 n)
  have d: "''0123456789'' ! k \<in> set ''0123456789''" if "k < 10" for k
    using that by (intro nth_mem) simp
  show ?case
  proof (cases "n < 10")
    case True
    then show ?thesis using d [of n] by (subst (1 2) str_nat.simps) simp
  next
    case False
    have "n mod 10 < 10" by simp
    from d [OF this] 1 False show ?thesis by (subst (1 2) str_nat.simps) simp
  qed
qed

lemma py_str_hd: "py_str i \<noteq> [] \<and> hd (py_str i) \<in> set ''-0123456789''"
proof -
  have "hd (str_nat n) \<in> set ''0123456789''" for n
    using str_nat_digits [of n] hd_in_set [of "str_nat n"] by blast
  then show ?thesis using str_nat_digits by (auto simp: py_str_def)
qed

lemma os_path_join_relative:
  assumes "b \<noteq> []" and "hd b \<noteq> CHR ''/''"
  shows "os_path_join a b = dir_prefix a @ b"
  using assms by (simp add: os_path_join_def dir_prefix_def)

lemma run_log_name_hd: "run_log_name e n \<noteq> [] \<and> hd (run_log_name e n) \<in> set ''-0123456789''"
  using py_str_hd [of "py_int (time_at e n)"] by (simp add: run_log_name_def)

lemma init_eq:
  "init e dir s =
     (\<lparr>output_dir = dir, pid = getpid e,
       start_log_path = dir_prefix dir @ ''start.log'',
       run_log_path = dir_prefix dir @ run_log_name e (tick s + 1),
       stop_log_path = dir_prefix dir @ ''stop.log''\<rparr>,
      s\<lparr>calls := calls s @ [GetPid, Time]\<rparr>)"
proof -
  have r: "os_path_join dir (run_log_name e (tick s + 1)) = dir_prefix dir @ run_log_name e (tick s + 1)"
    using run_log_name_hd [of e "tick s + 1"] by (intro os_path_join_relative) auto
  have "os_path_join dir ''start.log'' = dir_prefix dir @ ''start.log''"
    and "os_path_join dir ''stop.log'' = dir_prefix dir @ ''stop.log''"
    by (simp_all add: os_path_join_relative)
  then show ?thesis using r
    by (simp add: init_def os_getpid_def time_time_def env_call_def tick_def run_log_name_def)
qed

lemma init_paths_distinct:
  assumes "init e dir s = (obj, s')"
  shows "start_log_path obj \<noteq> stop_log_path obj"
    and "run_log_path obj \<noteq> stop_log_path obj"
    and "run_log_path obj \<noteq> start_log_path obj"
proof -
  have "run_log_name e (tick s + 1) \<noteq> ''stop.log''" "run_log_name e (tick s + 1) \<noteq> ''start.log''"
    using run_log_name_hd [of e "tick s + 1"] by auto
  then show "start_log_path obj \<noteq> stop_log_path obj"
    and "run_log_path obj \<noteq> stop_log_path obj"
    and "run_log_path obj \<noteq> start_log_path obj"
    using assms by (auto simp: init_eq)
qed

subsection \<open>Frames: what the methods leave alone\<close>

lemma opened_append: "opened (xs @ ys) = opened xs @ opened ys"
  by (induction xs rule: opened.induct) simp_all

lemma write_log_frame:
  assumes "write_log e p m s = (r, s')"
  shows "feed s' = feed s"
    and "q \<noteq> p \<Longrightarrow> files s' q = files s q"
    and "\<exists>cs. calls s' = calls s @ cs \<and> opened cs = [p]"
    and "r = Inl x \<Longrightarrow> \<exists>n. fault e n = Some x"
    and "\<exists>suf. content (files s') p = content (files s) p @ suf"
  using assms
  by (cases rule: write_log_cases [of e s p m]; auto simp: content_upd_same)+

lemma time_sleep_frame:
  assumes "time_sleep e n s = (r, s')"
  shows "feed s' = feed s" and "files s' = files s" and "stdout s' = stdout s"
    and "calls s' = calls s @ [Sleep n]"
    and "r = Inl x \<Longrightarrow> fault e (tick s) = Some x"
  using assms by (auto simp: time_sleep_def env_call_def split: option.splits)

lemma framed_trans: "framed e P s s1 \<Longrightarrow> framed e P s1 s2 \<Longrightarrow> framed e P s s2"
  by (auto simp: framed_def opened_append)

lemma framed_mono: "framed e P s s' \<Longrightarrow> P \<subseteq> Q \<Longrightarrow> framed e Q s s'"
  by (auto simp: framed_def)

lemma write_log_framed:
  assumes "write_log e p m s = (r, s')"
  shows "framed e {p} s s'"
  using write_log_frame(1-3) [OF assms] by (auto simp: framed_def)

lemma time_sleep_framed:
  assumes "time_sleep e n s = (r, s')"
  shows "framed e P s s'"
  using time_sleep_frame [OF assms] by (auto simp: framed_def)

lemma run_loop_frame_aux:
  assumes "run_loop e self i s = Some y"
  shows "framed e {run_log_path self} s (snd y) \<and> (\<exists>x n. fst y = Inl x \<and> fault e n = Some x)"
  using assms
proof (induction rule: run_loop.raw_induct [rotated 1, consumes 1])
  case (1 loop e self i s y)
  obtain r1 s1 where w: "write_log e (run_log_path self)
      (''INFO: Running log message '' @ py_str (i + 1)) s = (r1, s1)"
    by (cases "write_log e (run_log_path self) (''INFO: Running log message '' @ py_str (i + 1)) s")
  have f1: "framed e {run_log_path self} s s1"
    using write_log_framed [OF w] .
  show ?case
  proof (cases r1)
    case (Inl x)
    then have "y = (Inl x, s1)" using 1(2) w by simp
    then show ?thesis using f1 write_log_frame(4) [OF w] Inl by auto
  next
    case (Inr u)
    obtain r2 s2 where sl: "time_sleep e 10 s1 = (r2, s2)"
      by (cases "time_sleep e 10 s1")
    have f2: "framed e {run_log_path self} s s2"
      using framed_trans [OF f1 time_sleep_framed [OF sl]] .
    show ?thesis
    proof (cases r2)
      case (Inl x)
      then have "y = (Inl x, s2)" using 1(2) w sl Inr by simp
      then show ?thesis using f2 time_sleep_frame(5) [OF sl] Inl by auto
    next
      case r2: (Inr u2)
      then have "loop e self (i + 1) s2 = Some y" using 1(2) w sl Inr by simp
      from 1(1) [OF this] show ?thesis using framed_trans [OF f2] by blast
    qed
  qed
qed

lemma run_loop_frame:
  assumes "run_loop e self i s = Some (r, s')"
  shows "framed e {run_log_path self} s s'" and "\<exists>x n. r = Inl x \<and> fault e n = Some x"
  using run_loop_frame_aux [OF assms] by simp_all

lemma quietD: "quiet e a b \<Longrightarrow> a \<le> n \<Longrightarrow> n < b \<Longrightarrow> fault e n = None"
  by (simp add: quiet_def)

lemma quiet_from: "quiet e a b \<Longrightarrow> a \<le> a' \<Longrightarrow> quiet e a' b"
  by (simp add: quiet_def)

lemma write_log_ok_ex:
  assumes "fault e (tick s) = None" and "fault e (tick s + 4) = None"
  shows "\<exists>s1. write_log e p m s = (Inr (), s1) \<and> tick s1 = tick s + 6 \<and>
           content (files s1) p = content (files s) p @ log_line (stamp e (tick s + 3)) m"
  by (simp add: write_log_ok [OF assms] tick_def content_upd_same)

lemma write_log_open_fault_ex:
  assumes "fault e (tick s) = Some x"
  shows "\<exists>s1. write_log e p m s = (Inl x, s1) \<and> tick s1 = tick s + 1 \<and> files s1 = files s"
  by (simp add: write_log_open_fault [OF assms] tick_def)

lemma time_sleep_ok:
  assumes "fault e (tick s) = None"
  shows "\<exists>s1. time_sleep e n s = (Inr (), s1) \<and> tick s1 = tick s + 1 \<and> files s1 = files s"
  using assms by (simp add: time_sleep_def env_call_def tick_def)

lemma time_sleep_fault:
  assumes "fault e (tick s) = Some x"
  shows "\<exists>s1. time_sleep e n s = (Inl x, s1) \<and> tick s1 = tick s + 1 \<and> files s1 = files s"
  using assms by (simp add: time_sleep_def env_call_def tick_def)

lemma map_upt_shift: "map f [0..<Suc k] = f 0 # map (\<lambda>j. f (Suc j)) [0..<k]"
  by (simp add: map_upt_Suc del: upt_Suc)

lemma run_loop_cancel:
  assumes "quiet e (tick s) c" and "fault e c = Some x"
    and "c = tick s + 7 * k \<or> (0 < k \<and> c + 1 = tick s + 7 * k)"
  shows "\<exists>s'. run_loop e self i s = Some (Inl x, s') \<and> tick s' = c + 1 \<and>
           content (files s') (run_log_path self) =
             content (files s) (run_log_path self) @
             concat (map (\<lambda>j. log_line (stamp e (tick s + 7 * j + 3)) (info_msg (i + 1 + int j)))
                       [0..<k])"
  using assms
proof (induction k arbitrary: s i)
  case 0
  then have "fault e (tick s) = Some x" by simp
  from write_log_open_fault_ex [OF this] obtain s1 where
    w: "write_log e (run_log_path self) (''INFO: Running log message '' @ py_str (i + 1)) s = (Inl x, s1)"
    and t1: "tick s1 = tick s + 1" and f1: "files s1 = files s" by blast
  have "run_loop e self i s = Some (Inl x, s1)"
    by (subst run_loop.simps) (simp only: w prod.case sum.case)
  then show ?case using t1 f1 0 by simp
next
  case (Suc k)
  let ?p = "run_log_path self"
  have c: "tick s + 6 \<le> c" using Suc.prems(3) by auto
  have "fault e (tick s) = None" "fault e (tick s + 4) = None"
    using quietD [OF Suc.prems(1)] c by simp_all
  from write_log_ok_ex [OF this] obtain s1 where
    w: "write_log e ?p (''INFO: Running log message '' @ py_str (i + 1)) s = (Inr (), s1)"
    and t1: "tick s1 = tick s + 6"
    and c1: "content (files s1) ?p = content (files s) ?p @
        log_line (stamp e (tick s + 3)) (info_msg (i + 1))"
    by (auto simp: info_msg_def)
  show ?case
  proof (cases "c = tick s + 6")
    case True
    then have "fault e (tick s1) = Some x" using Suc.prems(2) t1 by simp
    from time_sleep_fault [OF this] obtain s2 where
      sl: "time_sleep e 10 s1 = (Inl x, s2)" and t2: "tick s2 = tick s1 + 1"
      and f2: "files s2 = files s1" by blast
    have k: "k = 0" using True Suc.prems(3) by auto
    have "run_loop e self i s = Some (Inl x, s2)"
      by (subst run_loop.simps) (simp only: w sl prod.case sum.case)
    then show ?thesis using t1 t2 f2 c1 True k by simp
  next
    case False
    then have c7: "tick s + 7 \<le> c" using Suc.prems(3) c by auto
    have "fault e (tick s1) = None"
      using quietD [OF Suc.prems(1)] t1 c7 by simp
    from time_sleep_ok [OF this] obtain s2 where
      sl: "time_sleep e 10 s1 = (Inr (), s2)" and t2: "tick s2 = tick s1 + 1"
      and f2: "files s2 = files s1" by blast
    have t2': "tick s2 = tick s + 7" using t1 t2 by simp
    have q: "quiet e (tick s2) c"
      using quiet_from [OF Suc.prems(1)] t2' by simp
    have pos: "c = tick s2 + 7 * k \<or> (0 < k \<and> c + 1 = tick s2 + 7 * k)"
      using Suc.prems(3) t2' False by auto
    from Suc.IH [OF q Suc.prems(2) pos, of "i + 1"] obtain s' where
      r: "run_loop e self (i + 1) s2 = Some (Inl x, s')" and t': "tick s' = c + 1"
      and c': "content (files s') ?p = content (files s2) ?p @
          concat (map (\<lambda>j. log_line (stamp e (tick s2 + 7 * j + 3)) (info_msg (i + 1 + 1 + int j)))
                    [0..<k])"
      by blast
    have "run_loop e self i s = Some (Inl x, s')"
      by (subst run_loop.simps) (simp only: w sl r prod.case sum.case)
    moreover have "content (files s') ?p = content (files s) ?p @
        concat (map (\<lambda>j. log_line (stamp e (tick s + 7 * j + 3)) (info_msg (i + 1 + int j)))
                  [0..<Suc k])"
      unfolding map_upt_shift using c' c1 f2 t2' by (simp add: add.commute add.left_commute)
    ultimately show ?thesis using t' by blast
  qed
qed

subsection \<open>The run log\<close>

lemma framed_content: "framed e P s s' \<Longrightarrow> q \<notin> P \<Longrightarrow> content (files s') q = content (files s) q"
  by (simp add: framed_def content_def)

lemma try_finally_simps:
  "try_finally r (Inl x, s) = (Inl x, s)"
  "try_finally r (Inr u, s) = (r, s)"
  by (simp_all add: try_finally_def)

lemma run_log_try_frame:
  assumes "run_log_try e self s = Some (r, s')"
  shows "framed e {run_log_path self} s s'" and "\<exists>x n. r = Inl x \<and> fault e n = Some x"
proof -
  obtain r1 s1 where w: "write_log e (run_log_path self) (''Start logging: '' @ py_str (pid self)) s = (r1, s1)"
    by (cases "write_log e (run_log_path self) (''Start logging: '' @ py_str (pid self)) s")
  note f1 = write_log_framed [OF w]
  have "framed e {run_log_path self} s s' \<and> (\<exists>x n. r = Inl x \<and> fault e n = Some x)"
  proof (cases r1)
    case (Inl x)
    then have "r = Inl x" "s' = s1" using assms unfolding run_log_try_def w by simp_all
    then show ?thesis using f1 write_log_frame(4) [OF w] Inl by auto
  next
    case (Inr u)
    then have l: "run_loop e self 0 s1 = Some (r, s')" using assms unfolding run_log_try_def w by simp
    from run_loop_frame [OF l] framed_trans [OF f1] show ?thesis by blast
  qed
  then show "framed e {run_log_path self} s s'" and "\<exists>x n. r = Inl x \<and> fault e n = Some x"
    by simp_all
qed

text \<open>How \<open>run_log\<close> ends: the suite of the try ends, then the end line is attempted.\<close>

lemma run_log_split:
  assumes "run_log e self s = Some (r, s')"
  obtains r2 s2 where "run_log_try e self s = Some (r2, s2)"
    and "(r, s') = try_finally r2 (write_log e (run_log_path self) (run_end_msg self) s2)"
  using assms unfolding run_log_def run_end_msg_def
  by (cases "run_log_try e self s") auto

lemma try_finally_write_log:
  assumes "(r, s') = try_finally r2 (write_log e p m s2)" and "\<exists>x n. r2 = Inl x \<and> fault e n = Some x"
  shows "framed e {p} s2 s'" and "\<exists>x n. r = Inl x \<and> fault e n = Some x"
proof -
  obtain r3 s3 where w: "write_log e p m s2 = (r3, s3)"
    by (cases "write_log e p m s2")
  have s: "s' = s3" using assms(1) w by (cases r3) (simp_all add: try_finally_simps)
  show "framed e {p} s2 s'" using write_log_framed [OF w] s by simp
  show "\<exists>x n. r = Inl x \<and> fault e n = Some x"
  proof (cases r3)
    case (Inl x)
    then have "r = Inl x" using assms(1) w by (simp add: try_finally_simps)
    then show ?thesis using write_log_frame(4) [OF w] Inl by auto
  next
    case (Inr u)
    then have "r = r2" using assms(1) w by (simp add: try_finally_simps)
    then show ?thesis using assms(2) by simp
  qed
qed

lemma run_log_frame:
  assumes "run_log e self s = Some (r, s')"
  shows "framed e {run_log_path self} s s'" and "\<exists>x n. r = Inl x \<and> fault e n = Some x"
proof -
  from assms obtain r2 s2 where t: "run_log_try e self s = Some (r2, s2)"
    and f: "(r, s') = try_finally r2 (write_log e (run_log_path self) (run_end_msg self) s2)"
    by (rule run_log_split)
  show "framed e {run_log_path self} s s'"
    using framed_trans [OF run_log_try_frame(1) [OF t] try_finally_write_log(1) [OF f run_log_try_frame(2) [OF t]]] .
  show "\<exists>x n. r = Inl x \<and> fault e n = Some x"
    using try_finally_write_log(2) [OF f run_log_try_frame(2) [OF t]] .
qed

lemma upt_1_Suc: "[1..<Suc k] = map Suc [0..<k]"
  by (simp add: map_Suc_upt del: upt_Suc)

lemma run_log_cancel:
  assumes "quiet e (tick s) c" and "fault e c = Some x"
    and "c = tick s + 7 * k + 6 \<or> (0 < k \<and> c = tick s + 7 * k + 5)"
    and "fault e (c + 1) = None" and "fault e (c + 5) = None"
  shows "\<exists>s'. run_log e self s = Some (Inl x, s') \<and> tick s' = c + 7 \<and>
           content (files s') (run_log_path self) =
             content (files s) (run_log_path self) @
             log_line (stamp e (tick s + 3)) (run_start_msg self) @
             concat (map (\<lambda>j. log_line (stamp e (tick s + 7 * j + 2)) (info_msg (int j))) [1..<Suc k]) @
             log_line (stamp e (c + 4)) (run_end_msg self)"
proof -
  let ?p = "run_log_path self"
  have c: "tick s + 6 \<le> c" using assms(3) by auto
  have "fault e (tick s) = None" "fault e (tick s + 4) = None"
    using quietD [OF assms(1)] c by simp_all
  from write_log_ok_ex [OF this] obtain s1 where
    w: "write_log e ?p (''Start logging: '' @ py_str (pid self)) s = (Inr (), s1)"
    and t1: "tick s1 = tick s + 6"
    and c1: "content (files s1) ?p = content (files s) ?p @
        log_line (stamp e (tick s + 3)) (run_start_msg self)"
    by (auto simp: run_start_msg_def)
  have q: "quiet e (tick s1) c" using quiet_from [OF assms(1)] t1 by simp
  have pos: "c = tick s1 + 7 * k \<or> (0 < k \<and> c + 1 = tick s1 + 7 * k)"
    using assms(3) t1 by auto
  from run_loop_cancel [OF q assms(2) pos, of self 0] obtain s2 where
    l: "run_loop e self 0 s1 = Some (Inl x, s2)" and t2: "tick s2 = c + 1"
    and c2: "content (files s2) ?p = content (files s1) ?p @
        concat (map (\<lambda>j. log_line (stamp e (tick s1 + 7 * j + 3)) (info_msg (0 + 1 + int j))) [0..<k])"
    by blast
  have tr: "run_log_try e self s = Some (Inl x, s2)"
    unfolding run_log_try_def by (simp only: w l prod.case sum.case)
  have "fault e (tick s2) = None" "fault e (tick s2 + 4) = None"
    using assms(4,5) t2 by (simp_all add: add.commute)
  from write_log_ok_ex [OF this] obtain s3 where
    w3: "write_log e ?p (''End logging: '' @ py_str (pid self)) s2 = (Inr (), s3)"
    and t3: "tick s3 = tick s2 + 6"
    and c3: "content (files s3) ?p = content (files s2) ?p @
        log_line (stamp e (tick s2 + 3)) (run_end_msg self)"
    by (auto simp: run_end_msg_def)
  have r: "run_log e self s = Some (Inl x, s3)"
    unfolding run_log_def by (simp only: tr w3 option.case prod.case try_finally_simps)
  have m: "map (\<lambda>j. log_line (stamp e (tick s1 + 7 * j + 3)) (info_msg (0 + 1 + int j))) [0..<k] =
      map (\<lambda>j. log_line (stamp e (tick s + 7 * j + 2)) (info_msg (int j))) [1..<Suc k]"
    unfolding upt_1_Suc by (simp add: t1 add.commute add.left_commute)
  show ?thesis
    using r t3 t2 c3 c2 c1 unfolding m by (simp add: ac_simps del: upt_Suc)
qed

lemma write_log_write_fault_ex:
  assumes "fault e (tick s) = None" and "fault e (tick s + 4) = Some x"
  shows "\<exists>s1. write_log e p m s = (Inl x, s1) \<and> tick s1 = tick s + 6 \<and>
           content (files s1) p = content (files s) p"
  by (simp add: write_log_write_fault [OF assms] tick_def content_upd_same)

lemma run_loop_write_error:
  assumes "quiet e (tick s) c" and "fault e c = Some x" and "c = tick s + 7 * k + 4"
  shows "\<exists>s'. run_loop e self i s = Some (Inl x, s') \<and> tick s' = c + 2 \<and>
           content (files s') (run_log_path self) =
             content (files s) (run_log_path self) @
             concat (map (\<lambda>j. log_line (stamp e (tick s + 7 * j + 3)) (info_msg (i + 1 + int j)))
                       [0..<k])"
  using assms
proof (induction k arbitrary: s i)
  case 0
  then have "fault e (tick s) = None" "fault e (tick s + 4) = Some x"
    using quietD [OF 0(1), of "tick s"] by simp_all
  from write_log_write_fault_ex [OF this] obtain s1 where
    w: "write_log e (run_log_path self) (''INFO: Running log message '' @ py_str (i + 1)) s = (Inl x, s1)"
    and t1: "tick s1 = tick s + 6"
    and c1: "content (files s1) (run_log_path self) = content (files s) (run_log_path self)"
    by blast
  have "run_loop e self i s = Some (Inl x, s1)"
    by (subst run_loop.simps) (simp only: w prod.case sum.case)
  then show ?case using t1 c1 0 by simp
next
  case (Suc k)
  let ?p = "run_log_path self"
  have c: "tick s + 11 \<le> c" using Suc.prems(3) by auto
  have "fault e (tick s) = None" "fault e (tick s + 4) = None"
    using quietD [OF Suc.prems(1)] c by simp_all
  from write_log_ok_ex [OF this] obtain s1 where
    w: "write_log e ?p (''INFO: Running log message '' @ py_str (i + 1)) s = (Inr (), s1)"
    and t1: "tick s1 = tick s + 6"
    and c1: "content (files s1) ?p = content (files s) ?p @
        log_line (stamp e (tick s + 3)) (info_msg (i + 1))"
    by (auto simp: info_msg_def)
  have "fault e (tick s1) = None"
    using quietD [OF Suc.prems(1)] t1 c by simp
  from time_sleep_ok [OF this] obtain s2 where
    sl: "time_sleep e 10 s1 = (Inr (), s2)" and t2: "tick s2 = tick s1 + 1"
    and f2: "files s2 = files s1" by blast
  have t2': "tick s2 = tick s + 7" using t1 t2 by simp
  have q: "quiet e (tick s2) c"
    using quiet_from [OF Suc.prems(1)] t2' by simp
  have pos: "c = tick s2 + 7 * k + 4"
    using Suc.prems(3) t2' by simp
  from Suc.IH [OF q Suc.prems(2) pos, of "i + 1"] obtain s' where
    r: "run_loop e self (i + 1) s2 = Some (Inl x, s')" and t': "tick s' = c + 2"
    and c': "content (files s') ?p = content (files s2) ?p @
        concat (map (\<lambda>j. log_line (stamp e (tick s2 + 7 * j + 3)) (info_msg (i + 1 + 1 + int j)))
                  [0..<k])"
    by blast
  have "run_loop e self i s = Some (Inl x, s')"
    by (subst run_loop.simps) (simp only: w sl r prod.case sum.case)
  moreover have "content (files s') ?p = content (files s) ?p @
      concat (map (\<lambda>j. log_line (stamp e (tick s + 7 * j + 3)) (info_msg (i + 1 + int j)))
                [0..<Suc k])"
    unfolding map_upt_shift using c' c1 f2 t2' by (simp add: add.commute add.left_commute)
  ultimately show ?case using t' by blast
qed

text \<open>
  A write of the loop raises, and then the write of the end line raises as well: the
  run log keeps its start line and the lines of the iterations before, and gets no
  end line.
\<close>

lemma run_log_write_error:
  assumes "quiet e (tick s) c" and "fault e c = Some x" and "c = tick s + 7 * k + 10"
    and "fault e (c + 2) = None" and "fault e (c + 6) = Some y"
  shows "\<exists>s'. run_log e self s = Some (Inl y, s') \<and>
           content (files s') (run_log_path self) =
             content (files s) (run_log_path self) @
             log_line (stamp e (tick s + 3)) (run_start_msg self) @
             concat (map (\<lambda>j. log_line (stamp e (tick s + 7 * j + 2)) (info_msg (int j))) [1..<Suc k])"
proof -
  let ?p = "run_log_path self"
  have c: "tick s + 10 \<le> c" using assms(3) by auto
  have "fault e (tick s) = None" "fault e (tick s + 4) = None"
    using quietD [OF assms(1)] c by simp_all
  from write_log_ok_ex [OF this] obtain s1 where
    w: "write_log e ?p (''Start logging: '' @ py_str (pid self)) s = (Inr (), s1)"
    and t1: "tick s1 = tick s + 6"
    and c1: "content (files s1) ?p = content (files s) ?p @
        log_line (stamp e (tick s + 3)) (run_start_msg self)"
    by (auto simp: run_start_msg_def)
  have q: "quiet e (tick s1) c" using quiet_from [OF assms(1)] t1 by simp
  have pos: "c = tick s1 + 7 * k + 4" using assms(3) t1 by simp
  from run_loop_write_error [OF q assms(2) pos, of self 0] obtain s2 where
    l: "run_loop e self 0 s1 = Some (Inl x, s2)" and t2: "tick s2 = c + 2"
    and c2: "content (files s2) ?p = content (files s1) ?p @
        concat (map (\<lambda>j. log_line (stamp e (tick s1 + 7 * j + 3)) (info_msg (0 + 1 + int j))) [0..<k])"
    by blast
  have tr: "run_log_try e self s = Some (Inl x, s2)"
    unfolding run_log_try_def by (simp only: w l prod.case sum.case)
  have "fault e (tick s2) = None" "fault e (tick s2 + 4) = Some y"
    using assms(4,5) t2 by (simp_all add: add.commute)
  from write_log_write_fault_ex [OF this] obtain s3 where
    w3: "write_log e ?p (''End logging: '' @ py_str (pid self)) s2 = (Inl y, s3)"
    and c3: "content (files s3) ?p = content (files s2) ?p"
    by blast
  have r: "run_log e self s = Some (Inl y, s3)"
    unfolding run_log_def by (simp only: tr w3 option.case prod.case try_finally_simps)
  have m: "map (\<lambda>j. log_line (stamp e (tick s1 + 7 * j + 3)) (info_msg (0 + 1 + int j))) [0..<k] =
      map (\<lambda>j. log_line (stamp e (tick s + 7 * j + 2)) (info_msg (int j))) [1..<Suc k]"
    unfolding upt_1_Suc by (simp add: t1 add.commute add.left_commute)
  show ?thesis
    using r c3 c2 c1 unfolding m by (simp add: ac_simps del: upt_Suc)
qed

lemma try_finally_write_log_end:
  assumes "(r, s') = try_finally r2 (write_log e p m s2)"
  shows "calls s' = calls s2 @
           (if fault e (tick s2) = None
            then [Open p, Strftime fmt, Print (log_line (stamp e (tick s2 + 1)) m), Strftime fmt,
                  Write p (log_line (stamp e (tick s2 + 3)) m), Close p]
            else [Open p])"
    and "content (files s') p = content (files s2) p @
           (if fault e (tick s2) = None \<and> fault e (tick s2 + 4) = None
            then log_line (stamp e (tick s2 + 3)) m else [])"
  using assms
  by (cases rule: write_log_cases [of e s2 p m]; simp add: try_finally_simps content_upd_same)+

lemmas msg_simps = info_msg_def run_start_msg_def run_end_msg_def started_msg_def stopped_msg_def
  py_str_def

subsection \<open>The script as a whole\<close>

lemma on_feed_bound: "feed s = Some obj \<Longrightarrow> on_feed m u s = m obj s"
  by (simp add: on_feed_def)

lemma start_log_eq: "start_log e self s = write_log e (start_log_path self) (started_msg self) s"
  by (simp add: start_log_def started_msg_def)

lemma stop_log_eq: "stop_log e self s = write_log e (stop_log_path self) (stopped_msg self) s"
  by (simp add: stop_log_def stopped_msg_def)

lemma framed_first_call:
  assumes "framed e P s1 s2" and "\<exists>cs. calls s1 = calls s @ c # cs"
  shows "\<exists>cs. calls s2 = calls s @ c # cs"
  using assms by (auto simp: framed_def)

lemma write_log_first_call:
  assumes "write_log e p m s = (r, s')"
  shows "\<exists>cs. calls s' = calls s @ Open p # cs"
  using assms by (cases rule: write_log_cases [of e s p m]) auto

lemma main_try_frame:
  assumes "feed s = Some obj" and "main_try e s = Some (r, s')"
  shows "framed e {start_log_path obj, run_log_path obj} s s'"
    and "\<exists>x n. r = Inl x \<and> fault e n = Some x"
    and "\<exists>cs. calls s' = calls s @ Open (start_log_path obj) # cs"
proof -
  let ?P = "{start_log_path obj, run_log_path obj}"
  obtain r1 s1 where w: "write_log e (start_log_path obj) (started_msg obj) s = (r1, s1)"
    by (cases "write_log e (start_log_path obj) (started_msg obj) s")
  have f1: "framed e ?P s s1"
    using framed_mono [OF write_log_framed [OF w]] by simp
  note c1 = write_log_first_call [OF w]
  have "framed e ?P s s' \<and> (\<exists>x n. r = Inl x \<and> fault e n = Some x) \<and>
      (\<exists>cs. calls s' = calls s @ Open (start_log_path obj) # cs)"
  proof (cases r1)
    case (Inl x)
    then have "r = Inl x" "s' = s1"
      using assms w by (simp_all add: main_try_def on_feed_bound start_log_eq)
    then show ?thesis using f1 c1 write_log_frame(4) [OF w] Inl by auto
  next
    case (Inr u)
    have "feed s1 = Some obj" using f1 assms(1) by (simp add: framed_def)
    then have l: "run_log e obj s1 = Some (r, s')"
      using assms w Inr by (simp add: main_try_def on_feed_bound start_log_eq)
    have f2: "framed e ?P s1 s'"
      using framed_mono [OF run_log_frame(1) [OF l]] by simp
    show ?thesis
      using framed_trans [OF f1 f2] run_log_frame(2) [OF l] framed_first_call [OF f2 c1] by blast
  qed
  then show "framed e ?P s s'" and "\<exists>x n. r = Inl x \<and> fault e n = Some x"
    and "\<exists>cs. calls s' = calls s @ Open (start_log_path obj) # cs"
    by simp_all
qed

lemma main_split:
  assumes "length (argv e) = 2" and "init e (argv e ! 1) s = (obj, s1)"
    and "main e s = Some (r, s')"
  obtains rb sb where "main_try e (s1\<lparr>feed := Some obj\<rparr>) = Some (rb, sb)"
    and "feed sb = Some obj"
    and "(r, s') = try_finally rb (write_log e (stop_log_path obj) (stopped_msg obj) sb)"
proof -
  let ?s2 = "s1\<lparr>feed := Some obj\<rparr>"
  from assms obtain rb sb where t: "main_try e ?s2 = Some (rb, sb)"
    and f: "(r, s') = try_finally rb (on_feed (stop_log e) (\<lambda>s. (Inl NameError, s)) sb)"
    by (cases "main_try e ?s2") (auto simp: main_def)
  have fb: "feed sb = Some obj"
    using main_try_frame(1) [OF _ t, of obj] by (simp add: framed_def)
  then have "(r, s') = try_finally rb (write_log e (stop_log_path obj) (stopped_msg obj) sb)"
    using f by (simp add: on_feed_bound stop_log_eq)
  with t fb show ?thesis using that by blast
qed

lemma init_state:
  assumes "init e dir s = (obj, s1)"
  shows "s1 = s\<lparr>calls := calls s @ [GetPid, Time]\<rparr>"
  using assms by (simp add: init_eq)

lemma main_eq:
  assumes "length (argv e) = 2" and "init e (argv e ! 1) s = (obj, s1)"
  shows "main e s =
     (case main_try e (s1\<lparr>feed := Some obj\<rparr>) of
        None \<Rightarrow> None
      | Some (r, s3) \<Rightarrow> Some (try_finally r (on_feed (stop_log e) (\<lambda>s. (Inl NameError, s)) s3)))"
  using assms by (simp add: main_def)

lemma main_cancel:
  assumes len: "length (argv e) = 2" and i: "init e (argv e ! 1) s = (obj, s1)"
    and q: "quiet e (tick s) c" and f: "fault e c = Some x"
    and pos: "c = tick s + 7 * k + 14 \<or> (0 < k \<and> c = tick s + 7 * k + 13)"
    and q2: "quiet e (c + 1) (c + 13)"
  shows "\<exists>s'. main e s = Some (Inl x, s') \<and> feed s' = Some obj \<and>
     content (files s') (start_log_path obj) =
       content (files s) (start_log_path obj) @ log_line (stamp e (tick s + 5)) (started_msg obj) \<and>
     content (files s') (run_log_path obj) =
       content (files s) (run_log_path obj) @
       log_line (stamp e (tick s + 11)) (run_start_msg obj) @
       concat (map (\<lambda>j. log_line (stamp e (tick s + 7 * j + 10)) (info_msg (int j))) [1..<Suc k]) @
       log_line (stamp e (c + 4)) (run_end_msg obj) \<and>
     content (files s') (stop_log_path obj) =
       content (files s) (stop_log_path obj) @ log_line (stamp e (c + 10)) (stopped_msg obj)"
proof -
  let ?start = "start_log_path obj" and ?run = "run_log_path obj" and ?stop = "stop_log_path obj"
  let ?s2 = "s1\<lparr>feed := Some obj\<rparr>"
  note d = init_paths_distinct [OF i]
  have s1: "s1 = s\<lparr>calls := calls s @ [GetPid, Time]\<rparr>" using init_state [OF i] .
  have t2: "tick ?s2 = tick s + 2" and fl2: "files ?s2 = files s" and fd2: "feed ?s2 = Some obj"
    by (simp_all add: s1 tick_def)
  have c14: "tick s + 13 \<le> c" using pos by auto
  have "fault e (tick ?s2) = None" "fault e (tick ?s2 + 4) = None"
    unfolding t2 using quietD [OF q] c14 by simp_all
  from write_log_ok_ex [OF this] obtain s3 where
    w3: "write_log e ?start (started_msg obj) ?s2 = (Inr (), s3)"
    and t3: "tick s3 = tick s + 8"
    and c3: "content (files s3) ?start = content (files s) ?start @
        log_line (stamp e (tick s + 5)) (started_msg obj)"
    unfolding t2 fl2 by (auto simp: add.commute)
  note f3 = write_log_framed [OF w3]
  have fd3: "feed s3 = Some obj" using f3 fd2 by (simp add: framed_def)
  have q3: "quiet e (tick s3) c" using quiet_from [OF q] t3 by simp
  have pos3: "c = tick s3 + 7 * k + 6 \<or> (0 < k \<and> c = tick s3 + 7 * k + 5)"
    using pos t3 by auto
  have "fault e (c + 1) = None" "fault e (c + 5) = None"
    using quietD [OF q2] by simp_all
  from run_log_cancel [OF q3 f pos3 this, of obj] obtain s4 where
    r4: "run_log e obj s3 = Some (Inl x, s4)" and t4: "tick s4 = c + 7"
    and c4: "content (files s4) ?run = content (files s3) ?run @
       log_line (stamp e (tick s3 + 3)) (run_start_msg obj) @
       concat (map (\<lambda>j. log_line (stamp e (tick s3 + 7 * j + 2)) (info_msg (int j))) [1..<Suc k]) @
       log_line (stamp e (c + 4)) (run_end_msg obj)"
    by blast
  note f4 = run_log_frame(1) [OF r4]
  have fd4: "feed s4 = Some obj" using f4 fd3 by (simp add: framed_def)
  have tr: "main_try e ?s2 = Some (Inl x, s4)"
    by (simp add: main_try_def on_feed_bound [OF fd2] on_feed_bound [OF fd3] start_log_eq w3 r4)
  have "fault e (tick s4) = None" "fault e (tick s4 + 4) = None"
    unfolding t4 using quietD [OF q2] by simp_all
  from write_log_ok_ex [OF this] obtain s5 where
    w5: "write_log e ?stop (stopped_msg obj) s4 = (Inr (), s5)"
    and c5: "content (files s5) ?stop = content (files s4) ?stop @
        log_line (stamp e (c + 10)) (stopped_msg obj)"
    unfolding t4 by (auto simp: add.commute)
  note f5 = write_log_framed [OF w5]
  have m: "main e s = Some (Inl x, s5)"
    unfolding main_eq [OF len i]
    by (simp add: tr on_feed_bound [OF fd4] stop_log_eq w5 try_finally_simps)
  have fd5: "feed s5 = Some obj" using f5 fd4 by (simp add: framed_def)
  have a: "content (files s5) ?start = content (files s3) ?start"
    using framed_content [OF f5, of ?start] framed_content [OF f4, of ?start] d by simp
  have b: "content (files s5) ?run = content (files s4) ?run"
    and b': "content (files s3) ?run = content (files s) ?run"
    using framed_content [OF f5, of ?run] framed_content [OF f3, of ?run] d fl2 by simp_all
  have c: "content (files s4) ?stop = content (files s) ?stop"
    using framed_content [OF f4, of ?stop] framed_content [OF f3, of ?stop] d fl2 by simp
  have e3: "tick s3 + 3 = tick s + 11" "\<And>j. tick s3 + 7 * j + 2 = tick s + 7 * j + 10"
    using t3 by simp_all
  show ?thesis
    using m fd5 a c3 b c4 b' c c5 unfolding e3 by simp
qed

lemma demo_init:
  "init (demo_env demo_argv fl) ''/tmp/x'' fresh = (demo_feed, fresh\<lparr>calls := [GetPid, Time]\<rparr>)"
  by (simp add: init_eq dir_prefix_def run_log_name_def demo_env_def demo_feed_def fresh_def
      py_int_def py_str_def str_nat.simps tick_def)

lemma demo_argv_simps: "length (argv (demo_env demo_argv fl)) = 2" "argv (demo_env demo_argv fl) ! 1 = ''/tmp/x''"
  by (simp_all add: demo_env_def demo_argv_def)

text \<open>
  The run of the script in \<^verbatim>\<open>/tmp/x\<close> that is interrupted during its second sleep
  (call 27): start marker, start line, two messages, end line, stop marker.
\<close>

lemma demo_run:
  "\<exists>s'. main (demo_env demo_argv (fault_at 27 KeyboardInterrupt)) fresh =
           Some (Inl KeyboardInterrupt, s') \<and>
        feed s' = Some demo_feed \<and>
        content (files s') ''/tmp/x/start.log'' =
          ''2023-11-14 22:13:25: 100: Program started'' @ [CHR 0x0A] \<and>
        content (files s') ''/tmp/x/1700000000_100_run.log'' =
          ''2023-11-14 22:13:31: Start logging: 100'' @ [CHR 0x0A] @
          ''2023-11-14 22:13:37: INFO: Running log message 1'' @ [CHR 0x0A] @
          ''2023-11-14 22:13:44: INFO: Running log message 2'' @ [CHR 0x0A] @
          ''2023-11-14 22:13:51: End logging: 100'' @ [CHR 0x0A] \<and>
        content (files s') ''/tmp/x/stop.log'' =
          ''2023-11-14 22:13:57: End logging 100: Program stopped'' @ [CHR 0x0A]"
proof -
  let ?e = "demo_env demo_argv (fault_at 27 KeyboardInterrupt)"
  have i: "init ?e (argv ?e ! 1) fresh = (demo_feed, fresh\<lparr>calls := [GetPid, Time]\<rparr>)"
    unfolding demo_argv_simps(2) by (rule demo_init)
  have h: "quiet ?e (tick fresh) 27" "fault ?e 27 = Some KeyboardInterrupt"
    "27 = tick fresh + 7 * 2 + 14 \<or> (0 < (2::nat) \<and> 27 = tick fresh + 7 * 2 + 13)"
    "quiet ?e (27 + 1) (27 + 13)"
    by (simp_all add: quiet_def demo_env_def fault_at_def fresh_def tick_def)
  have u: "[1..<Suc 2] = [1, 2]"
    by (simp add: upt_rec)
  from main_cancel [OF demo_argv_simps(1) i h] show ?thesis
    unfolding u by (simp add: demo_simps msg_simps)
qed

lemma main_never_normal:
  assumes "length (argv e) = 2" and "main e s = Some (r, s')"
  shows "\<exists>x n. r = Inl x \<and> fault e n = Some x"
proof -
  obtain obj s1 where i: "init e (argv e ! 1) s = (obj, s1)"
    by (cases "init e (argv e ! 1) s")
  from assms i obtain rb sb where t: "main_try e (s1\<lparr>feed := Some obj\<rparr>) = Some (rb, sb)"
    and f: "(r, s') = try_finally rb (write_log e (stop_log_path obj) (stopped_msg obj) sb)"
    by (auto elim: main_split)
  show ?thesis
    using try_finally_write_log(2) [OF f main_try_frame(2) [OF _ t, of obj]] by simp
qed

subsection \<open>Claims about one call of \<open>write_log\<close>\<close>

text \<open>
  Claim C1. A call \<^verbatim>\<open>_write_log(path, message)\<close> that returns has appended to the file
  at \<open>path\<close> exactly the timestamp, \<open>': '\<close>, the message and a newline, after
  whatever the file held before; a call that raises has appended nothing. No other file
  changes. The call returns exactly when neither its open nor its write raises. The
  timestamp is the one \<^verbatim>\<open>strftime\<close> returns as the fourth call of \<open>write_log\<close>: year,
  month, day, hour, minute and second of the local time, separated as in
  \<^verbatim>\<open>YYYY-MM-DD HH:MM:SS\<close>, 19 characters for a four-digit year.
\<close>

theorem write_log_appends_line:
  assumes "write_log e p m s = (r, s')"
  shows "content (files s') p =
           content (files s) p @
             (if r = Inr () then stamp e (tick s + 3) @ '': '' @ m @ [CHR 0x0A] else []) \<and>
         (\<forall>q. q \<noteq> p \<longrightarrow> files s' q = files s q) \<and>
         (r = Inr () \<longleftrightarrow> fault e (tick s) = None \<and> fault e (tick s + 4) = None) \<and>
         stamp e (tick s + 3) =
           (let t = localtime_at e (tick s + 3)
            in str_nat (tm_year t) @ ''-'' @ pad2 (tm_mon t) @ ''-'' @ pad2 (tm_mday t) @ '' '' @
               pad2 (tm_hour t) @ '':'' @ pad2 (tm_min t) @ '':'' @ pad2 (tm_sec t)) \<and>
         (valid_time (localtime_at e (tick s + 3)) \<longrightarrow> length (stamp e (tick s + 3)) = 19)"
proof -
  have "content (files s') p =
           content (files s) p @
             (if r = Inr () then stamp e (tick s + 3) @ '': '' @ m @ [CHR 0x0A] else []) \<and>
         (\<forall>q. q \<noteq> p \<longrightarrow> files s' q = files s q) \<and>
         (r = Inr () \<longleftrightarrow> fault e (tick s) = None \<and> fault e (tick s + 4) = None)"
    using assms
    by (cases rule: write_log_cases [of e s p m]) (auto simp: content_upd_same log_line_def)
  then show ?thesis
    using stamp_expand [of e "tick s + 3"] stamp_length [of e "tick s + 3"] by blast
qed

theorem write_log_appends_line_witness:
  "content (files (snd (write_log (demo_env [] no_fault) ''/tmp/x/start.log'' ''hello'' old_state)))
     ''/tmp/x/start.log'' = ''earlier'' @ [CHR 0x0A] @ ''2023-11-14 22:13:25: hello'' @ [CHR 0x0A]"
proof -
  obtain r s' where h: "write_log (demo_env [] no_fault) ''/tmp/x/start.log'' ''hello'' old_state = (r, s')"
    by (cases "write_log (demo_env [] no_fault) ''/tmp/x/start.log'' ''hello'' old_state")
  have "content (files s') ''/tmp/x/start.log'' =
      ''earlier'' @ [CHR 0x0A] @ ''2023-11-14 22:13:25: hello'' @ [CHR 0x0A]"
    using write_log_appends_line [OF h] by (simp add: demo_simps)
  then show ?thesis by (simp add: h)
qed

text \<open>
  Claim C7, as stated, fails: \<^verbatim>\<open>print\<close> ends its output with a newline of its own,
  and the string it is given already ends in one. With a clock that stands still, an
  empty console and no file, one call leaves two newlines at the end of the console
  output and one at the end of the file.
\<close>

theorem write_log_console_counterexample:
  "stdout (snd (write_log (frozen_env no_fault) ''/tmp/x/start.log'' ''hello'' fresh)) =
     ''2023-11-14 22:13:20: hello'' @ [CHR 0x0A, CHR 0x0A] \<and>
   content (files (snd (write_log (frozen_env no_fault) ''/tmp/x/start.log'' ''hello'' fresh)))
     ''/tmp/x/start.log'' = ''2023-11-14 22:13:20: hello'' @ [CHR 0x0A] \<and>
   stdout (snd (write_log (frozen_env no_fault) ''/tmp/x/start.log'' ''hello'' fresh)) \<noteq>
   content (files (snd (write_log (frozen_env no_fault) ''/tmp/x/start.log'' ''hello'' fresh)))
     ''/tmp/x/start.log''"
proof -
  have "fault (frozen_env no_fault) (tick fresh) = None"
    and "fault (frozen_env no_fault) (tick fresh + 4) = None"
    by (simp_all add: frozen_env_def demo_env_def no_fault_def)
  then show ?thesis
    by (simp add: write_log_ok) (simp add: demo_simps)
qed

text \<open>
  Claim C7, amended. A call whose open succeeds sends to standard output the line
  formatted with the timestamp read as its second call, followed by one more newline;
  a call whose open raises sends nothing. The file gets the line formatted with the
  timestamp read as the fourth call. When the two readings format alike, the bytes sent
  to the console are the bytes appended to the file followed by one newline.
\<close>

theorem write_log_console:
  assumes "write_log e p m s = (r, s')"
  shows "(fault e (tick s) \<noteq> None \<longrightarrow> stdout s' = stdout s) \<and>
         (fault e (tick s) = None \<longrightarrow>
            stdout s' = stdout s @ stamp e (tick s + 1) @ '': '' @ m @ [CHR 0x0A, CHR 0x0A]) \<and>
         (r = Inr () \<longrightarrow>
            content (files s') p = content (files s) p @ stamp e (tick s + 3) @ '': '' @ m @ [CHR 0x0A]) \<and>
         (r = Inr () \<and> stamp e (tick s + 1) = stamp e (tick s + 3) \<longrightarrow>
            drop (length (stdout s)) (stdout s') =
              drop (length (content (files s) p)) (content (files s') p) @ [CHR 0x0A])"
  using assms
  by (cases rule: write_log_cases [of e s p m]) (auto simp: content_upd_same log_line_def)

theorem write_log_console_witness:
  "drop (length (stdout old_state))
     (stdout (snd (write_log (frozen_env no_fault) ''/tmp/x/start.log'' ''hello'' old_state))) =
   ''2023-11-14 22:13:20: hello'' @ [CHR 0x0A, CHR 0x0A] \<and>
   drop (length (content (files old_state) ''/tmp/x/start.log''))
     (content (files (snd (write_log (frozen_env no_fault) ''/tmp/x/start.log'' ''hello'' old_state)))
        ''/tmp/x/start.log'') =
   ''2023-11-14 22:13:20: hello'' @ [CHR 0x0A]"
proof -
  obtain r s' where h: "write_log (frozen_env no_fault) ''/tmp/x/start.log'' ''hello'' old_state = (r, s')"
    by (cases "write_log (frozen_env no_fault) ''/tmp/x/start.log'' ''hello'' old_state")
  have f: "fault (frozen_env no_fault) (tick old_state) = None"
    "fault (frozen_env no_fault) (tick old_state + 4) = None"
    by (simp_all add: frozen_env_def demo_env_def no_fault_def)
  have r: "r = Inr ()"
    using h by (simp add: write_log_ok [OF f])
  have "drop (length (stdout old_state)) (stdout s') =
          ''2023-11-14 22:13:20: hello'' @ [CHR 0x0A, CHR 0x0A] \<and>
        drop (length (content (files old_state) ''/tmp/x/start.log''))
          (content (files s') ''/tmp/x/start.log'') = ''2023-11-14 22:13:20: hello'' @ [CHR 0x0A]"
    using write_log_console [OF h] f r by (simp add: demo_simps)
  then show ?thesis by (simp add: h)
qed

text \<open>
  Claim C10. Inside one call the order is open, \<^verbatim>\<open>print\<close>, write. When the open raises,
  it is the only call made: nothing reaches standard output and no file changes. When
  the open succeeds, the line is printed before the write is attempted; so when the
  write raises, standard output has the line and the file does not.
\<close>

theorem write_log_print_between_open_and_write:
  assumes "write_log e p m s = (r, s')"
  shows "(\<forall>x. fault e (tick s) = Some x \<longrightarrow>
            r = Inl x \<and> stdout s' = stdout s \<and> files s' = files s \<and>
            calls s' = calls s @ [Open p]) \<and>
         (fault e (tick s) = None \<longrightarrow>
            calls s' = calls s @
              [Open p, Strftime fmt, Print (stamp e (tick s + 1) @ '': '' @ m @ [CHR 0x0A]),
               Strftime fmt, Write p (stamp e (tick s + 3) @ '': '' @ m @ [CHR 0x0A]), Close p] \<and>
            stdout s' = stdout s @ stamp e (tick s + 1) @ '': '' @ m @ [CHR 0x0A, CHR 0x0A]) \<and>
         (\<forall>x. fault e (tick s) = None \<and> fault e (tick s + 4) = Some x \<longrightarrow>
            r = Inl x \<and> content (files s') p = content (files s) p)"
  using assms
  by (cases rule: write_log_cases [of e s p m]) (auto simp: content_upd_same log_line_def)

theorem write_log_print_between_open_and_write_witness:
  "stdout (snd (write_log (demo_env [] (fault_at 2 OSError)) ''/tmp/x/start.log'' ''hello'' old_state))
     = ''seen'' \<and>
   files (snd (write_log (demo_env [] (fault_at 2 OSError)) ''/tmp/x/start.log'' ''hello'' old_state))
     = files old_state \<and>
   stdout (snd (write_log (demo_env [] (fault_at 6 OSError)) ''/tmp/x/start.log'' ''hello'' old_state))
     = ''seen'' @ ''2023-11-14 22:13:23: hello'' @ [CHR 0x0A, CHR 0x0A] \<and>
   content (files (snd (write_log (demo_env [] (fault_at 6 OSError)) ''/tmp/x/start.log'' ''hello''
      old_state))) ''/tmp/x/start.log'' = ''earlier'' @ [CHR 0x0A]"
proof -
  obtain r s' where h:
    "write_log (demo_env [] (fault_at 2 OSError)) ''/tmp/x/start.log'' ''hello'' old_state = (r, s')"
    by (cases "write_log (demo_env [] (fault_at 2 OSError)) ''/tmp/x/start.log'' ''hello'' old_state")
  obtain r2 s2 where h2:
    "write_log (demo_env [] (fault_at 6 OSError)) ''/tmp/x/start.log'' ''hello'' old_state = (r2, s2)"
    by (cases "write_log (demo_env [] (fault_at 6 OSError)) ''/tmp/x/start.log'' ''hello'' old_state")
  have a: "stdout s' = ''seen'' \<and> files s' = files old_state"
    using write_log_print_between_open_and_write [OF h] by (simp add: demo_simps)
  have b: "stdout s2 = ''seen'' @ ''2023-11-14 22:13:23: hello'' @ [CHR 0x0A, CHR 0x0A] \<and>
      content (files s2) ''/tmp/x/start.log'' = ''earlier'' @ [CHR 0x0A]"
    using write_log_print_between_open_and_write [OF h2] by (simp add: demo_simps)
  from a b show ?thesis by (simp add: h h2)
qed

subsection \<open>Claims about the run log\<close>

text \<open>
  Claim C2, as stated, fails in its last part: the end line is attempted on every way
  out of the loop, but the attempt is itself a write and can raise. Here the write of
  the second iteration raises \<^verbatim>\<open>OSError\<close> (call 17) and so does the write of the end
  line (call 23): \<open>run_log\<close> ends with the error, and the run log holds the start
  line and the first message and no end line.
\<close>

theorem run_log_end_line_counterexample:
  "run_log (demo_env [] (faults_at [17, 23] OSError)) demo_feed fresh \<noteq> None \<and>
   fst (the (run_log (demo_env [] (faults_at [17, 23] OSError)) demo_feed fresh)) = Inl OSError \<and>
   content (files (snd (the (run_log (demo_env [] (faults_at [17, 23] OSError)) demo_feed fresh))))
     ''/tmp/x/1700000000_100_run.log'' =
       ''2023-11-14 22:13:23: Start logging: 100'' @ [CHR 0x0A] @
       ''2023-11-14 22:13:29: INFO: Running log message 1'' @ [CHR 0x0A]"
proof -
  let ?e = "demo_env [] (faults_at [17, 23] OSError)"
  have "quiet ?e (tick fresh) 17" "fault ?e 17 = Some OSError" "17 = tick fresh + 7 * 1 + 10"
    "fault ?e (17 + 2) = None" "fault ?e (17 + 6) = Some OSError"
    by (simp_all add: quiet_def demo_env_def faults_at_def fresh_def tick_def)
  from run_log_write_error [OF this, of demo_feed] obtain s' where
    r: "run_log ?e demo_feed fresh = Some (Inl OSError, s')"
    and c: "content (files s') (run_log_path demo_feed) =
             content (files fresh) (run_log_path demo_feed) @
             log_line (stamp ?e (tick fresh + 3)) (run_start_msg demo_feed) @
             concat (map (\<lambda>j. log_line (stamp ?e (tick fresh + 7 * j + 2)) (info_msg (int j))) [1..<Suc 1])"
    by blast
  have u: "[1..<Suc 1] = [1]"
    by (simp add: upt_rec)
  have "content (files s') ''/tmp/x/1700000000_100_run.log'' =
       ''2023-11-14 22:13:23: Start logging: 100'' @ [CHR 0x0A] @
       ''2023-11-14 22:13:29: INFO: Running log message 1'' @ [CHR 0x0A]"
    using c unfolding u by (simp add: demo_simps msg_simps)
  then show ?thesis by (simp add: r)
qed

text \<open>
  Claim C2, amended. First part: let the first exception be delivered when exactly
  \<open>k\<close> iterations have written their line, that is at the open of iteration \<open>k + 1\<close>
  (call \<open>tick s + 7 * k + 6\<close>) or, for \<open>k > 0\<close>, during the sleep of iteration \<open>k\<close>
  (call \<open>tick s + 7 * k + 5\<close>), and let the open and the write of the end line not
  raise. Then \<open>run_log\<close> ends with that exception, and the run log has grown by
  exactly the start line, the messages numbered 1 to \<open>k\<close> in order, and the end line.
  Second part: whenever \<open>run_log\<close> ends, the suite of its \<^verbatim>\<open>try\<close> has ended, the
  calls made after that are those of the write of the end line (only the open when
  the open raises), and the end line is appended exactly when neither its open nor
  its write raises. Third part: whenever the suite ends, the \<^verbatim>\<open>finally\<close> clause runs
  and \<open>run_log\<close> ends with it.
\<close>

theorem run_log_cancelled:
  "(quiet e (tick s) c \<and> fault e c = Some x \<and>
    (c = tick s + 7 * k + 6 \<or> (0 < k \<and> c = tick s + 7 * k + 5)) \<and>
    fault e (c + 1) = None \<and> fault e (c + 5) = None \<longrightarrow>
      (\<exists>s'. run_log e self s = Some (Inl x, s') \<and>
         content (files s') (run_log_path self) =
           content (files s) (run_log_path self) @
           log_line (stamp e (tick s + 3)) (run_start_msg self) @
           concat (map (\<lambda>j. log_line (stamp e (tick s + 7 * j + 2)) (info_msg (int j))) [1..<Suc k]) @
           log_line (stamp e (c + 4)) (run_end_msg self))) \<and>
   (\<forall>r s'. run_log e self s = Some (r, s') \<longrightarrow>
      (\<exists>r2 s2. run_log_try e self s = Some (r2, s2) \<and>
         calls s' = calls s2 @
           (if fault e (tick s2) = None
            then [Open (run_log_path self), Strftime fmt,
                  Print (log_line (stamp e (tick s2 + 1)) (run_end_msg self)), Strftime fmt,
                  Write (run_log_path self) (log_line (stamp e (tick s2 + 3)) (run_end_msg self)),
                  Close (run_log_path self)]
            else [Open (run_log_path self)]) \<and>
         content (files s') (run_log_path self) =
           content (files s2) (run_log_path self) @
           (if fault e (tick s2) = None \<and> fault e (tick s2 + 4) = None
            then log_line (stamp e (tick s2 + 3)) (run_end_msg self) else []))) \<and>
   (\<forall>r2 s2. run_log_try e self s = Some (r2, s2) \<longrightarrow>
      run_log e self s =
        Some (try_finally r2 (write_log e (run_log_path self) (run_end_msg self) s2)))"
proof (intro conjI impI allI)
  assume "quiet e (tick s) c \<and> fault e c = Some x \<and>
    (c = tick s + 7 * k + 6 \<or> (0 < k \<and> c = tick s + 7 * k + 5)) \<and>
    fault e (c + 1) = None \<and> fault e (c + 5) = None"
  then show "\<exists>s'. run_log e self s = Some (Inl x, s') \<and>
         content (files s') (run_log_path self) =
           content (files s) (run_log_path self) @
           log_line (stamp e (tick s + 3)) (run_start_msg self) @
           concat (map (\<lambda>j. log_line (stamp e (tick s + 7 * j + 2)) (info_msg (int j))) [1..<Suc k]) @
           log_line (stamp e (c + 4)) (run_end_msg self)"
    using run_log_cancel [of e s c x k self] by blast
next
  fix r s'
  assume "run_log e self s = Some (r, s')"
  then obtain r2 s2 where t: "run_log_try e self s = Some (r2, s2)"
    and f: "(r, s') = try_finally r2 (write_log e (run_log_path self) (run_end_msg self) s2)"
    by (rule run_log_split)
  from t try_finally_write_log_end [OF f]
  show "\<exists>r2 s2. run_log_try e self s = Some (r2, s2) \<and>
         calls s' = calls s2 @
           (if fault e (tick s2) = None
            then [Open (run_log_path self), Strftime fmt,
                  Print (log_line (stamp e (tick s2 + 1)) (run_end_msg self)), Strftime fmt,
                  Write (run_log_path self) (log_line (stamp e (tick s2 + 3)) (run_end_msg self)),
                  Close (run_log_path self)]
            else [Open (run_log_path self)]) \<and>
         content (files s') (run_log_path self) =
           content (files s2) (run_log_path self) @
           (if fault e (tick s2) = None \<and> fault e (tick s2 + 4) = None
            then log_line (stamp e (tick s2 + 3)) (run_end_msg self) else [])"
    by blast
next
  fix r2 s2
  assume "run_log_try e self s = Some (r2, s2)"
  then show "run_log e self s =
      Some (try_finally r2 (write_log e (run_log_path self) (run_end_msg self) s2))"
    by (simp add: run_log_def run_end_msg_def)
qed

theorem run_log_cancelled_witness:
  "\<exists>s'. run_log (demo_env [] (fault_at 19 KeyboardInterrupt)) demo_feed fresh =
          Some (Inl KeyboardInterrupt, s') \<and>
        content (files s') ''/tmp/x/1700000000_100_run.log'' =
          ''2023-11-14 22:13:23: Start logging: 100'' @ [CHR 0x0A] @
          ''2023-11-14 22:13:29: INFO: Running log message 1'' @ [CHR 0x0A] @
          ''2023-11-14 22:13:36: INFO: Running log message 2'' @ [CHR 0x0A] @
          ''2023-11-14 22:13:43: End logging: 100'' @ [CHR 0x0A] \<and>
        (\<exists>r2 s2. run_log_try (demo_env [] (fault_at 19 KeyboardInterrupt)) demo_feed fresh =
           Some (r2, s2))"
proof -
  let ?e = "demo_env [] (fault_at 19 KeyboardInterrupt)"
  note th = run_log_cancelled [of ?e fresh 19 KeyboardInterrupt 2 demo_feed]
  have h: "quiet ?e (tick fresh) 19 \<and> fault ?e 19 = Some KeyboardInterrupt \<and>
    (19 = tick fresh + 7 * 2 + 6 \<or> (0 < (2::nat) \<and> 19 = tick fresh + 7 * 2 + 5)) \<and>
    fault ?e (19 + 1) = None \<and> fault ?e (19 + 5) = None"
    by (simp add: quiet_def demo_env_def fault_at_def fresh_def tick_def)
  from th h obtain s' where r: "run_log ?e demo_feed fresh = Some (Inl KeyboardInterrupt, s')"
    and c: "content (files s') (run_log_path demo_feed) =
           content (files fresh) (run_log_path demo_feed) @
           log_line (stamp ?e (tick fresh + 3)) (run_start_msg demo_feed) @
           concat (map (\<lambda>j. log_line (stamp ?e (tick fresh + 7 * j + 2)) (info_msg (int j))) [1..<Suc 2]) @
           log_line (stamp ?e (19 + 4)) (run_end_msg demo_feed)"
    by blast
  have u: "[1..<Suc 2] = [1, 2]"
    by (simp add: upt_rec)
  from th r obtain r2 s2 where "run_log_try ?e demo_feed fresh = Some (r2, s2)" by blast
  moreover have "content (files s') ''/tmp/x/1700000000_100_run.log'' =
          ''2023-11-14 22:13:23: Start logging: 100'' @ [CHR 0x0A] @
          ''2023-11-14 22:13:29: INFO: Running log message 1'' @ [CHR 0x0A] @
          ''2023-11-14 22:13:36: INFO: Running log message 2'' @ [CHR 0x0A] @
          ''2023-11-14 22:13:43: End logging: 100'' @ [CHR 0x0A]"
    using c unfolding u by (simp add: demo_simps msg_simps)
  ultimately show ?thesis using r by blast
qed

subsection \<open>Claims about construction\<close>

text \<open>
  Claim C3, as stated, fails: the paths are built with \<^verbatim>\<open>os.path.join\<close>, which puts
  no separator after an empty directory or after one that already ends in a slash.
  For the output directory \<^verbatim>\<open>''\<close> the start path is \<^verbatim>\<open>start.log\<close> (a file of the
  working directory), not \<^verbatim>\<open>/start.log\<close>; for \<^verbatim>\<open>/tmp/x/\<close> it is
  \<^verbatim>\<open>/tmp/x/start.log\<close>, not \<^verbatim>\<open>/tmp/x//start.log\<close>.
\<close>

theorem init_paths_counterexample:
  "start_log_path (fst (init (demo_env [] no_fault) [] fresh)) = ''start.log'' \<and>
   start_log_path (fst (init (demo_env [] no_fault) [] fresh)) \<noteq> [] @ ''/start.log'' \<and>
   start_log_path (fst (init (demo_env [] no_fault) ''/tmp/x/'' fresh)) = ''/tmp/x/start.log'' \<and>
   start_log_path (fst (init (demo_env [] no_fault) ''/tmp/x/'' fresh)) \<noteq> ''/tmp/x/'' @ ''/start.log''"
  by (simp add: init_eq dir_prefix_def)

text \<open>
  Claim C3, amended. Construction makes two calls, \<^verbatim>\<open>os.getpid()\<close> and then
  \<^verbatim>\<open>time.time()\<close>, and changes nothing else. The logger keeps the directory and the
  process id, and its three paths are the directory prefix followed by
  \<^verbatim>\<open>start.log\<close>, by \<^verbatim>\<open><epoch seconds>_<pid>_run.log\<close> and by \<^verbatim>\<open>stop.log\<close>, where the
  epoch seconds are the reading of that one \<^verbatim>\<open>time.time()\<close> call truncated to an
  integer, and the directory prefix is the directory itself when it is empty or ends
  in a slash, and the directory followed by a slash otherwise.
\<close>

theorem init_paths:
  assumes "init e dir s = (obj, s')"
  shows "output_dir obj = dir \<and> pid obj = getpid e \<and>
         start_log_path obj = dir_prefix dir @ ''start.log'' \<and>
         run_log_path obj =
           dir_prefix dir @ py_str (py_int (time_at e (tick s + 1))) @ ''_'' @ py_str (getpid e) @
             ''_run.log'' \<and>
         stop_log_path obj = dir_prefix dir @ ''stop.log'' \<and>
         dir_prefix dir = (if dir = [] \<or> last dir = CHR ''/'' then dir else dir @ ''/'') \<and>
         calls s' = calls s @ [GetPid, Time] \<and> files s' = files s \<and> stdout s' = stdout s"
  using assms by (auto simp: init_eq run_log_name_def dir_prefix_def)

theorem init_paths_witness:
  "start_log_path (fst (init (demo_env [] no_fault) ''/tmp/x'' fresh)) = ''/tmp/x/start.log'' \<and>
   run_log_path (fst (init (demo_env [] no_fault) ''/tmp/x'' fresh)) = ''/tmp/x/1700000000_100_run.log'' \<and>
   stop_log_path (fst (init (demo_env [] no_fault) ''/tmp/x'' fresh)) = ''/tmp/x/stop.log''"
proof -
  obtain obj s' where h: "init (demo_env [] no_fault) ''/tmp/x'' fresh = (obj, s')"
    by (cases "init (demo_env [] no_fault) ''/tmp/x'' fresh")
  have "start_log_path obj = ''/tmp/x/start.log'' \<and>
      run_log_path obj = ''/tmp/x/1700000000_100_run.log'' \<and>
      stop_log_path obj = ''/tmp/x/stop.log''"
    using init_paths [OF h] by (simp add: demo_env_def py_int_def py_str_def str_nat.simps)
  then show ?thesis by (simp add: h)
qed

subsection \<open>Claims about the script\<close>

text \<open>
  Claim C4. Take a run of the script with exactly one argument. Whenever the suite of
  the top-level \<^verbatim>\<open>try\<close> ends, \<^verbatim>\<open>stop_log()\<close> runs next and the script ends with it
  (second part). And when the script has ended (first part), the suite had ended
  without ever opening \<^verbatim>\<open>stop.log\<close>; the calls made after it are exactly those of
  one \<^verbatim>\<open>stop_log()\<close> (its open alone when the open raises), so among all files opened
  in the run \<^verbatim>\<open>stop.log\<close> comes once, and last; and \<^verbatim>\<open>stop.log\<close> has grown by exactly
  the line \<open>'<timestamp>: End logging <pid>: Program stopped'\<close> when neither the open
  nor the write of \<^verbatim>\<open>stop_log()\<close> raises, and is unchanged otherwise. This holds
  however the suite ended: by an interrupt or by an error, in \<^verbatim>\<open>run_log()\<close> or already
  in \<^verbatim>\<open>start_log()\<close>.
\<close>

theorem stop_log_once_after_try:
  assumes "length (argv e) = 2" and "init e (argv e ! 1) s = (obj, s1)"
  shows "(\<forall>r s'. main e s = Some (r, s') \<longrightarrow>
           (\<exists>rb sb pre.
              main_try e (s1\<lparr>feed := Some obj\<rparr>) = Some (rb, sb) \<and>
              calls sb = calls s @ pre \<and> stop_log_path obj \<notin> set (opened pre) \<and>
              calls s' = calls sb @
                (if fault e (tick sb) = None
                 then [Open (stop_log_path obj), Strftime fmt,
                       Print (log_line (stamp e (tick sb + 1)) (stopped_msg obj)), Strftime fmt,
                       Write (stop_log_path obj) (log_line (stamp e (tick sb + 3)) (stopped_msg obj)),
                       Close (stop_log_path obj)]
                 else [Open (stop_log_path obj)]) \<and>
              opened (drop (length (calls s)) (calls s')) = opened pre @ [stop_log_path obj] \<and>
              content (files s') (stop_log_path obj) =
                content (files s) (stop_log_path obj) @
                (if fault e (tick sb) = None \<and> fault e (tick sb + 4) = None
                 then log_line (stamp e (tick sb + 3)) (stopped_msg obj) else []))) \<and>
         (\<forall>rb sb. main_try e (s1\<lparr>feed := Some obj\<rparr>) = Some (rb, sb) \<longrightarrow>
            main e s = Some (try_finally rb (stop_log e obj sb)))"
proof (rule conjI; intro allI impI)
  fix r s'
  assume m: "main e s = Some (r, s')"
  let ?stop = "stop_log_path obj"
  let ?s2 = "s1\<lparr>feed := Some obj\<rparr>"
  note d = init_paths_distinct [OF assms(2)]
  have s1: "s1 = s\<lparr>calls := calls s @ [GetPid, Time]\<rparr>" using init_state [OF assms(2)] .
  from assms m obtain rb sb where t: "main_try e ?s2 = Some (rb, sb)"
    and f: "(r, s') = try_finally rb (write_log e ?stop (stopped_msg obj) sb)"
    by (rule main_split)
  have fr: "framed e {start_log_path obj, run_log_path obj} ?s2 sb"
    using main_try_frame(1) [OF _ t, of obj] by simp
  then obtain cs where cs: "calls sb = calls ?s2 @ cs"
    and o: "set (opened cs) \<subseteq> {start_log_path obj, run_log_path obj}"
    by (auto simp: framed_def)
  let ?pre = "[GetPid, Time] @ cs"
  have p1: "calls sb = calls s @ ?pre" using cs s1 by simp
  have p2: "?stop \<notin> set (opened ?pre)" using o d by auto
  note e = try_finally_write_log_end [OF f]
  have p3: "opened (drop (length (calls s)) (calls s')) = opened ?pre @ [?stop]"
    unfolding e(1) p1 by (simp add: opened_append)
  have "content (files sb) ?stop = content (files ?s2) ?stop"
    using framed_content [OF fr, of ?stop] d by simp
  then have p4: "content (files sb) ?stop = content (files s) ?stop"
    by (simp add: s1)
  show "\<exists>rb sb pre.
              main_try e (s1\<lparr>feed := Some obj\<rparr>) = Some (rb, sb) \<and>
              calls sb = calls s @ pre \<and> stop_log_path obj \<notin> set (opened pre) \<and>
              calls s' = calls sb @
                (if fault e (tick sb) = None
                 then [Open (stop_log_path obj), Strftime fmt,
                       Print (log_line (stamp e (tick sb + 1)) (stopped_msg obj)), Strftime fmt,
                       Write (stop_log_path obj) (log_line (stamp e (tick sb + 3)) (stopped_msg obj)),
                       Close (stop_log_path obj)]
                 else [Open (stop_log_path obj)]) \<and>
              opened (drop (length (calls s)) (calls s')) = opened pre @ [stop_log_path obj] \<and>
              content (files s') (stop_log_path obj) =
                content (files s) (stop_log_path obj) @
                (if fault e (tick sb) = None \<and> fault e (tick sb + 4) = None
                 then log_line (stamp e (tick sb + 3)) (stopped_msg obj) else [])"
    using t p1 p2 e(1) p3 e(2) unfolding p4 by blast
next
  fix rb sb
  assume t: "main_try e (s1\<lparr>feed := Some obj\<rparr>) = Some (rb, sb)"
  have "feed sb = Some obj"
    using main_try_frame(1) [OF _ t, of obj] by (simp add: framed_def)
  then show "main e s = Some (try_finally rb (stop_log e obj sb))"
    unfolding main_eq [OF assms] by (simp add: t on_feed_bound)
qed

theorem stop_log_once_after_try_witness:
  "\<exists>s' pre. main (demo_env demo_argv (fault_at 27 KeyboardInterrupt)) fresh =
             Some (Inl KeyboardInterrupt, s') \<and>
           opened (drop (length (calls fresh)) (calls s')) = opened pre @ [''/tmp/x/stop.log''] \<and>
           ''/tmp/x/stop.log'' \<notin> set (opened pre)"
proof -
  let ?e = "demo_env demo_argv (fault_at 27 KeyboardInterrupt)"
  have i: "init ?e (argv ?e ! 1) fresh = (demo_feed, fresh\<lparr>calls := [GetPid, Time]\<rparr>)"
    unfolding demo_argv_simps(2) by (rule demo_init)
  from demo_run obtain s' where m: "main ?e fresh = Some (Inl KeyboardInterrupt, s')"
    by blast
  from stop_log_once_after_try [OF demo_argv_simps(1) i] m obtain pre where
    "opened (drop (length (calls fresh)) (calls s')) = opened pre @ [stop_log_path demo_feed]"
    "stop_log_path demo_feed \<notin> set (opened pre)"
    by blast
  then show ?thesis using m by (auto simp: demo_feed_def)
qed

text \<open>
  Claim C5. With any number of arguments other than one (\<^verbatim>\<open>sys.argv\<close> holds the script
  name as well, so its length is not 2) the script prints the usage message to standard
  output, which is the stream the specification calls the diagnostic stream, and ends
  with \<^verbatim>\<open>SystemExit(1)\<close>, exit status 1: that print is its only call, the global
  \<^verbatim>\<open>feed\<close> stays as it was and no file changes. With exactly one argument it goes
  on: any run that ends has constructed the logger from \<^verbatim>\<open>sys.argv[1]\<close> and has, as
  its first calls, \<^verbatim>\<open>os.getpid()\<close>, \<^verbatim>\<open>time.time()\<close> and the open of the start log.
\<close>

theorem main_usage:
  "(length (argv e) \<noteq> 2 \<longrightarrow>
      (\<exists>s'. main e s = Some (Inl (SystemExit 1), s') \<and> exit_status (Inl (SystemExit 1)) = 1 \<and>
            stdout s' = stdout s @ usage @ [CHR 0x0A] \<and> calls s' = calls s @ [Print usage] \<and>
            feed s' = feed s \<and> files s' = files s)) \<and>
   (length (argv e) = 2 \<longrightarrow>
      (\<forall>r s'. main e s = Some (r, s') \<longrightarrow>
         feed s' = Some (fst (init e (argv e ! 1) s)) \<and>
         (\<exists>cs. calls s' = calls s @
            [GetPid, Time, Open (start_log_path (fst (init e (argv e ! 1) s)))] @ cs)))"
proof (rule conjI; intro impI allI)
  assume "length (argv e) \<noteq> 2"
  then show "\<exists>s'. main e s = Some (Inl (SystemExit 1), s') \<and> exit_status (Inl (SystemExit 1)) = 1 \<and>
            stdout s' = stdout s @ usage @ [CHR 0x0A] \<and> calls s' = calls s @ [Print usage] \<and>
            feed s' = feed s \<and> files s' = files s"
    by (simp add: main_def builtin_print_def env_call_def exit_status_def)
next
  fix r s'
  assume len: "length (argv e) = 2" and m: "main e s = Some (r, s')"
  obtain obj s1 where i: "init e (argv e ! 1) s = (obj, s1)"
    by (cases "init e (argv e ! 1) s")
  let ?s2 = "s1\<lparr>feed := Some obj\<rparr>"
  have s1: "s1 = s\<lparr>calls := calls s @ [GetPid, Time]\<rparr>" using init_state [OF i] .
  from len i m obtain rb sb where t: "main_try e ?s2 = Some (rb, sb)"
    and fb: "feed sb = Some obj"
    and f: "(r, s') = try_finally rb (write_log e (stop_log_path obj) (stopped_msg obj) sb)"
    by (rule main_split)
  have fr: "framed e {stop_log_path obj} sb s'"
    using try_finally_write_log(1) [OF f main_try_frame(2) [OF _ t, of obj]] by simp
  from main_try_frame(3) [OF _ t, of obj] obtain cs where
    "calls sb = calls s @ [GetPid, Time, Open (start_log_path obj)] @ cs"
    by (auto simp: s1)
  then have "\<exists>cs. calls s' = calls s @ [GetPid, Time, Open (start_log_path obj)] @ cs"
    using fr by (auto simp: framed_def)
  moreover have "feed s' = Some obj" using fr fb by (simp add: framed_def)
  ultimately show "feed s' = Some (fst (init e (argv e ! 1) s)) \<and>
         (\<exists>cs. calls s' = calls s @
            [GetPid, Time, Open (start_log_path (fst (init e (argv e ! 1) s)))] @ cs)"
    unfolding i fst_conv by blast
qed

theorem main_usage_witness:
  "main (demo_env [''minimon_feed.py''] no_fault) fresh =
     Some (Inl (SystemExit 1),
           fresh\<lparr>stdout := ''Usage: python minimon_feed.py <output_dir>'' @ [CHR 0x0A],
                 calls := [Print ''Usage: python minimon_feed.py <output_dir>'']\<rparr>) \<and>
   main (demo_env [''minimon_feed.py'', ''/tmp/x'', ''/tmp/y''] no_fault) fresh =
     Some (Inl (SystemExit 1),
           fresh\<lparr>stdout := ''Usage: python minimon_feed.py <output_dir>'' @ [CHR 0x0A],
                 calls := [Print ''Usage: python minimon_feed.py <output_dir>'']\<rparr>) \<and>
   (\<exists>s'. main (demo_env demo_argv (fault_at 27 KeyboardInterrupt)) fresh =
           Some (Inl KeyboardInterrupt, s') \<and>
         feed s' = Some demo_feed \<and>
         take 3 (calls s') = [GetPid, Time, Open ''/tmp/x/start.log''])"
proof -
  have a: "main (demo_env [''minimon_feed.py''] no_fault) fresh =
     Some (Inl (SystemExit 1),
           fresh\<lparr>stdout := ''Usage: python minimon_feed.py <output_dir>'' @ [CHR 0x0A],
                 calls := [Print ''Usage: python minimon_feed.py <output_dir>'']\<rparr>)"
    using main_usage [of "demo_env [''minimon_feed.py''] no_fault" fresh]
    by (auto simp: demo_env_def fresh_def usage_def)
  have b: "main (demo_env [''minimon_feed.py'', ''/tmp/x'', ''/tmp/y''] no_fault) fresh =
     Some (Inl (SystemExit 1),
           fresh\<lparr>stdout := ''Usage: python minimon_feed.py <output_dir>'' @ [CHR 0x0A],
                 calls := [Print ''Usage: python minimon_feed.py <output_dir>'']\<rparr>)"
    using main_usage [of "demo_env [''minimon_feed.py'', ''/tmp/x'', ''/tmp/y''] no_fault" fresh]
    by (auto simp: demo_env_def fresh_def usage_def)
  let ?e = "demo_env demo_argv (fault_at 27 KeyboardInterrupt)"
  from demo_run obtain s' where m: "main ?e fresh = Some (Inl KeyboardInterrupt, s')"
    by blast
  have i: "init ?e (argv ?e ! 1) fresh = (demo_feed, fresh\<lparr>calls := [GetPid, Time]\<rparr>)"
    unfolding demo_argv_simps(2) by (rule demo_init)
  from main_usage [of ?e fresh] demo_argv_simps(1) [of "fault_at 27 KeyboardInterrupt"] m
  have "feed s' = Some (fst (init ?e (argv ?e ! 1) fresh)) \<and>
      (\<exists>cs. calls s' = calls fresh @
         [GetPid, Time, Open (start_log_path (fst (init ?e (argv ?e ! 1) fresh)))] @ cs)"
    by blast
  then have "feed s' = Some demo_feed \<and> take 3 (calls s') = [GetPid, Time, Open ''/tmp/x/start.log'']"
    unfolding i fst_conv by (auto simp: demo_feed_def fresh_def)
  with a b m show ?thesis by blast
qed

text \<open>
  Claim C6. The logger is built once, by \<^verbatim>\<open>__init__\<close>, and bound to the global
  \<^verbatim>\<open>feed\<close>; the methods get it as \<^verbatim>\<open>self\<close> and none of them assigns an attribute. No
  call of \<^verbatim>\<open>_write_log\<close>, \<^verbatim>\<open>start_log\<close>, \<^verbatim>\<open>run_log\<close> (or of its loop alone) or
  \<^verbatim>\<open>stop_log\<close> changes what \<^verbatim>\<open>feed\<close> holds, and when a run of the script with one
  argument ends, \<^verbatim>\<open>feed\<close> still holds exactly the logger that construction returned,
  with the three paths computed then.
\<close>

theorem paths_never_change:
  "(\<forall>r s'. write_log e p m s = (r, s') \<longrightarrow> feed s' = feed s) \<and>
   (\<forall>r s'. start_log e self s = (r, s') \<longrightarrow> feed s' = feed s) \<and>
   (\<forall>r s'. run_loop e self i s = Some (r, s') \<longrightarrow> feed s' = feed s) \<and>
   (\<forall>r s'. run_log e self s = Some (r, s') \<longrightarrow> feed s' = feed s) \<and>
   (\<forall>r s'. stop_log e self s = (r, s') \<longrightarrow> feed s' = feed s) \<and>
   (\<forall>r s'. length (argv e) = 2 \<and> main e s = Some (r, s') \<longrightarrow>
      feed s' = Some (fst (init e (argv e ! 1) s)))"
proof (intro conjI allI impI)
  fix r s'
  assume "write_log e p m s = (r, s')"
  then show "feed s' = feed s" by (rule write_log_frame(1))
next
  fix r s'
  assume "start_log e self s = (r, s')"
  then show "feed s' = feed s" unfolding start_log_eq by (rule write_log_frame(1))
next
  fix r s'
  assume "run_loop e self i s = Some (r, s')"
  from run_loop_frame(1) [OF this] show "feed s' = feed s" by (simp add: framed_def)
next
  fix r s'
  assume "run_log e self s = Some (r, s')"
  from run_log_frame(1) [OF this] show "feed s' = feed s" by (simp add: framed_def)
next
  fix r s'
  assume "stop_log e self s = (r, s')"
  then show "feed s' = feed s" unfolding stop_log_eq by (rule write_log_frame(1))
next
  fix r s'
  assume a: "length (argv e) = 2 \<and> main e s = Some (r, s')"
  obtain obj s1 where i: "init e (argv e ! 1) s = (obj, s1)"
    by (cases "init e (argv e ! 1) s")
  from a i obtain rb sb where t: "main_try e (s1\<lparr>feed := Some obj\<rparr>) = Some (rb, sb)"
    and fb: "feed sb = Some obj"
    and f: "(r, s') = try_finally rb (write_log e (stop_log_path obj) (stopped_msg obj) sb)"
    by (auto elim: main_split)
  have "framed e {stop_log_path obj} sb s'"
    using try_finally_write_log(1) [OF f main_try_frame(2) [OF _ t, of obj]] by simp
  then have "feed s' = Some obj" using fb by (simp add: framed_def)
  then show "feed s' = Some (fst (init e (argv e ! 1) s))"
    unfolding i fst_conv .
qed

theorem paths_never_change_witness:
  "\<exists>s'. main (demo_env demo_argv (fault_at 27 KeyboardInterrupt)) fresh =
          Some (Inl KeyboardInterrupt, s') \<and>
        map_option start_log_path (feed s') = Some ''/tmp/x/start.log'' \<and>
        map_option run_log_path (feed s') = Some ''/tmp/x/1700000000_100_run.log'' \<and>
        map_option stop_log_path (feed s') = Some ''/tmp/x/stop.log''"
proof -
  let ?e = "demo_env demo_argv (fault_at 27 KeyboardInterrupt)"
  have i: "init ?e (argv ?e ! 1) fresh = (demo_feed, fresh\<lparr>calls := [GetPid, Time]\<rparr>)"
    unfolding demo_argv_simps(2) by (rule demo_init)
  from demo_run obtain s' where m: "main ?e fresh = Some (Inl KeyboardInterrupt, s')"
    by blast
  from paths_never_change [of ?e _ _ fresh] demo_argv_simps(1) [of "fault_at 27 KeyboardInterrupt"] m
  have "feed s' = Some (fst (init ?e (argv ?e ! 1) fresh))"
    by blast
  then have "feed s' = Some demo_feed" unfolding i fst_conv .
  then show ?thesis using m by (simp add: demo_feed_def)
qed

text \<open>
  Claim C8, as stated, fails: nothing in the script catches the interrupt. In the run
  in \<^verbatim>\<open>/tmp/x\<close> interrupted during its second sleep, both cleanup writes succeed (the
  run log ends with its end line, \<^verbatim>\<open>stop.log\<close> has its line), and the script is
  left with the \<^verbatim>\<open>KeyboardInterrupt\<close> still propagating: the exit status is 130, not
  0.
\<close>

theorem main_interrupted_counterexample:
  "main (demo_env demo_argv (fault_at 27 KeyboardInterrupt)) fresh \<noteq> None \<and>
   fst (the (main (demo_env demo_argv (fault_at 27 KeyboardInterrupt)) fresh)) = Inl KeyboardInterrupt \<and>
   exit_status (fst (the (main (demo_env demo_argv (fault_at 27 KeyboardInterrupt)) fresh))) = 130 \<and>
   exit_status (fst (the (main (demo_env demo_argv (fault_at 27 KeyboardInterrupt)) fresh))) \<noteq> 0 \<and>
   content (files (snd (the (main (demo_env demo_argv (fault_at 27 KeyboardInterrupt)) fresh))))
     ''/tmp/x/1700000000_100_run.log'' =
       ''2023-11-14 22:13:31: Start logging: 100'' @ [CHR 0x0A] @
       ''2023-11-14 22:13:37: INFO: Running log message 1'' @ [CHR 0x0A] @
       ''2023-11-14 22:13:44: INFO: Running log message 2'' @ [CHR 0x0A] @
       ''2023-11-14 22:13:51: End logging: 100'' @ [CHR 0x0A] \<and>
   content (files (snd (the (main (demo_env demo_argv (fault_at 27 KeyboardInterrupt)) fresh))))
     ''/tmp/x/stop.log'' =
       ''2023-11-14 22:13:57: End logging 100: Program stopped'' @ [CHR 0x0A]"
proof -
  from demo_run obtain s' where
    m: "main (demo_env demo_argv (fault_at 27 KeyboardInterrupt)) fresh = Some (Inl KeyboardInterrupt, s')"
    and c: "content (files s') ''/tmp/x/1700000000_100_run.log'' =
          ''2023-11-14 22:13:31: Start logging: 100'' @ [CHR 0x0A] @
          ''2023-11-14 22:13:37: INFO: Running log message 1'' @ [CHR 0x0A] @
          ''2023-11-14 22:13:44: INFO: Running log message 2'' @ [CHR 0x0A] @
          ''2023-11-14 22:13:51: End logging: 100'' @ [CHR 0x0A]"
        "content (files s') ''/tmp/x/stop.log'' =
          ''2023-11-14 22:13:57: End logging 100: Program stopped'' @ [CHR 0x0A]"
    by blast
  show ?thesis
    unfolding m using c by (simp add: exit_status_def)
qed

text \<open>
  Claim C8, amended. When the script, started with one argument, is interrupted after
  \<open>k\<close> iterations have written their line and no call of the cleanup raises, it ends
  with the uncaught \<^verbatim>\<open>KeyboardInterrupt\<close>, which is a non-zero exit status. More
  generally the script has no normal way out: whenever a run with one argument ends,
  it ends with an exception that one of its calls raised, and when interrupts are the
  only exceptions the environment raises, that exception is \<^verbatim>\<open>KeyboardInterrupt\<close>.
\<close>

theorem main_interrupted:
  "(length (argv e) = 2 \<and> quiet e (tick s) c \<and> fault e c = Some KeyboardInterrupt \<and>
    (c = tick s + 7 * k + 14 \<or> (0 < k \<and> c = tick s + 7 * k + 13)) \<and>
    quiet e (c + 1) (c + 13) \<longrightarrow>
      (\<exists>s'. main e s = Some (Inl KeyboardInterrupt, s') \<and>
            exit_status (Inl KeyboardInterrupt) = 130)) \<and>
   (\<forall>r s'. length (argv e) = 2 \<and> main e s = Some (r, s') \<longrightarrow>
      (\<exists>x n. r = Inl x \<and> fault e n = Some x)) \<and>
   (\<forall>r s'. length (argv e) = 2 \<and> main e s = Some (r, s') \<and>
           (\<forall>n. fault e n = None \<or> fault e n = Some KeyboardInterrupt) \<longrightarrow>
      r = Inl KeyboardInterrupt \<and> exit_status r = 130)"
proof (intro conjI allI impI)
  assume a: "length (argv e) = 2 \<and> quiet e (tick s) c \<and> fault e c = Some KeyboardInterrupt \<and>
    (c = tick s + 7 * k + 14 \<or> (0 < k \<and> c = tick s + 7 * k + 13)) \<and>
    quiet e (c + 1) (c + 13)"
  obtain obj s1 where i: "init e (argv e ! 1) s = (obj, s1)"
    by (cases "init e (argv e ! 1) s")
  from a main_cancel [OF _ i, of c KeyboardInterrupt k]
  show "\<exists>s'. main e s = Some (Inl KeyboardInterrupt, s') \<and> exit_status (Inl KeyboardInterrupt) = 130"
    by (auto simp: exit_status_def)
next
  fix r s'
  assume "length (argv e) = 2 \<and> main e s = Some (r, s')"
  then show "\<exists>x n. r = Inl x \<and> fault e n = Some x"
    using main_never_normal by blast
next
  fix r s'
  assume a: "length (argv e) = 2 \<and> main e s = Some (r, s') \<and>
           (\<forall>n. fault e n = None \<or> fault e n = Some KeyboardInterrupt)"
  then obtain x n where "r = Inl x" "fault e n = Some x"
    using main_never_normal by blast
  with a have r: "r = Inl KeyboardInterrupt" by (metis option.distinct(1) option.inject)
  then show "r = Inl KeyboardInterrupt" .
  from r show "exit_status r = 130" by (simp add: exit_status_def)
qed

theorem main_interrupted_witness:
  "(\<exists>s'. main (demo_env demo_argv (fault_at 27 KeyboardInterrupt)) fresh =
           Some (Inl KeyboardInterrupt, s')) \<and>
   exit_status (Inl KeyboardInterrupt) = 130"
proof -
  let ?e = "demo_env demo_argv (fault_at 27 KeyboardInterrupt)"
  have "length (argv ?e) = 2 \<and> quiet ?e (tick fresh) 27 \<and> fault ?e 27 = Some KeyboardInterrupt \<and>
    (27 = tick fresh + 7 * 2 + 14 \<or> (0 < (2::nat) \<and> 27 = tick fresh + 7 * 2 + 13)) \<and>
    quiet ?e (27 + 1) (27 + 13)"
    by (simp add: quiet_def demo_env_def demo_argv_def fault_at_def fresh_def tick_def)
  with main_interrupted [of ?e fresh 27 2] show ?thesis by blast
qed

text \<open>
  Claim C9. The top-level \<^verbatim>\<open>try\<close> covers \<^verbatim>\<open>start_log()\<close>. When the open of the start
  log raises and \<^verbatim>\<open>stop_log()\<close> then runs without raising, the script ends with the
  exception of the open, having made exactly these calls: construction, the failed
  open, and the six calls of \<^verbatim>\<open>stop_log()\<close>. \<^verbatim>\<open>stop.log\<close> has its
  \<open>Program stopped\<close> line, the start log is untouched and the run log was never
  opened. The same holds when the open of the start log succeeds and its write
  raises, except that the open may have created an empty start log.
\<close>

theorem stop_log_after_failed_start:
  assumes "length (argv e) = 2" and "init e (argv e ! 1) s = (obj, s1)"
  shows "(fault e (tick s + 2) = Some x \<and> fault e (tick s + 3) = None \<and>
          fault e (tick s + 7) = None \<longrightarrow>
            (\<exists>s'. main e s = Some (Inl x, s') \<and>
               calls s' = calls s @
                 [GetPid, Time, Open (start_log_path obj), Open (stop_log_path obj), Strftime fmt,
                  Print (log_line (stamp e (tick s + 4)) (stopped_msg obj)), Strftime fmt,
                  Write (stop_log_path obj) (log_line (stamp e (tick s + 6)) (stopped_msg obj)),
                  Close (stop_log_path obj)] \<and>
               content (files s') (stop_log_path obj) =
                 content (files s) (stop_log_path obj) @
                 log_line (stamp e (tick s + 6)) (stopped_msg obj) \<and>
               files s' (start_log_path obj) = files s (start_log_path obj) \<and>
               files s' (run_log_path obj) = files s (run_log_path obj))) \<and>
         (fault e (tick s + 2) = None \<and> fault e (tick s + 6) = Some x \<and>
          fault e (tick s + 8) = None \<and> fault e (tick s + 12) = None \<longrightarrow>
            (\<exists>s'. main e s = Some (Inl x, s') \<and>
               opened (drop (length (calls s)) (calls s')) = [start_log_path obj, stop_log_path obj] \<and>
               content (files s') (stop_log_path obj) =
                 content (files s) (stop_log_path obj) @
                 log_line (stamp e (tick s + 11)) (stopped_msg obj) \<and>
               content (files s') (start_log_path obj) = content (files s) (start_log_path obj) \<and>
               files s' (run_log_path obj) = files s (run_log_path obj)))"
proof (rule conjI; intro impI)
  let ?start = "start_log_path obj" and ?run = "run_log_path obj" and ?stop = "stop_log_path obj"
  let ?s2 = "s1\<lparr>feed := Some obj\<rparr>"
  note d = init_paths_distinct [OF assms(2)]
  have s1: "s1 = s\<lparr>calls := calls s @ [GetPid, Time]\<rparr>" using init_state [OF assms(2)] .
  have t2: "tick ?s2 = tick s + 2" and fd2: "feed ?s2 = Some obj"
    by (simp_all add: s1 tick_def)
  {
    assume a: "fault e (tick s + 2) = Some x \<and> fault e (tick s + 3) = None \<and>
          fault e (tick s + 7) = None"
    have "fault e (tick ?s2) = Some x" using a by (simp add: t2)
    from write_log_open_fault [OF this, of ?start "started_msg obj"] obtain s3 where
      w3: "write_log e ?start (started_msg obj) ?s2 = (Inl x, s3)"
      and s3: "s3 = ?s2\<lparr>calls := calls ?s2 @ [Open ?start]\<rparr>"
      by blast
    have fd3: "feed s3 = Some obj" and t3: "tick s3 = tick s + 3"
      by (simp_all add: s3 s1 tick_def)
    have tr: "main_try e ?s2 = Some (Inl x, s3)"
      by (simp add: main_try_def on_feed_bound [OF fd2] start_log_eq w3)
    have "fault e (tick s3) = None" "fault e (tick s3 + 4) = None"
      unfolding t3 using a by (simp_all add: add.commute)
    from write_log_ok [OF this, of ?stop "stopped_msg obj"] obtain s4 where
      w4: "write_log e ?stop (stopped_msg obj) s3 = (Inr (), s4)"
      and s4: "s4 = s3\<lparr>files := (files s3)(?stop \<mapsto> content (files s3) ?stop @
                  log_line (stamp e (tick s3 + 3)) (stopped_msg obj)),
              stdout := stdout s3 @ log_line (stamp e (tick s3 + 1)) (stopped_msg obj) @ [CHR 0x0A],
              calls := calls s3 @ [Open ?stop, Strftime fmt,
                 Print (log_line (stamp e (tick s3 + 1)) (stopped_msg obj)),
                 Strftime fmt, Write ?stop (log_line (stamp e (tick s3 + 3)) (stopped_msg obj)),
                 Close ?stop]\<rparr>"
      by blast
    have m: "main e s = Some (Inl x, s4)"
      unfolding main_eq [OF assms]
      by (simp add: tr on_feed_bound [OF fd3] stop_log_eq w4 try_finally_simps)
    have e3: "tick s3 + 3 = tick s + 6" "tick s3 + 1 = tick s + 4"
      using t3 by simp_all
    show "\<exists>s'. main e s = Some (Inl x, s') \<and>
               calls s' = calls s @
                 [GetPid, Time, Open ?start, Open ?stop, Strftime fmt,
                  Print (log_line (stamp e (tick s + 4)) (stopped_msg obj)), Strftime fmt,
                  Write ?stop (log_line (stamp e (tick s + 6)) (stopped_msg obj)),
                  Close ?stop] \<and>
               content (files s') ?stop =
                 content (files s) ?stop @ log_line (stamp e (tick s + 6)) (stopped_msg obj) \<and>
               files s' ?start = files s ?start \<and> files s' ?run = files s ?run"
      using m d unfolding s4 e3 by (simp add: content_upd_same s3 s1)
  }
  {
    assume a: "fault e (tick s + 2) = None \<and> fault e (tick s + 6) = Some x \<and>
          fault e (tick s + 8) = None \<and> fault e (tick s + 12) = None"
    have "fault e (tick ?s2) = None" "fault e (tick ?s2 + 4) = Some x"
      unfolding t2 using a by (simp_all add: add.commute)
    from write_log_write_fault_ex [OF this, of ?start "started_msg obj"] obtain s3 where
      w3: "write_log e ?start (started_msg obj) ?s2 = (Inl x, s3)"
      and t3': "tick s3 = tick ?s2 + 6"
      and c3': "content (files s3) ?start = content (files ?s2) ?start"
      by blast
    have t3: "tick s3 = tick s + 8" using t3' t2 by simp
    have c3: "content (files s3) ?start = content (files s) ?start" using c3' by (simp add: s1)
    note f3 = write_log_framed [OF w3]
    have fd3: "feed s3 = Some obj" using f3 fd2 by (simp add: framed_def)
    have tr: "main_try e ?s2 = Some (Inl x, s3)"
      by (simp add: main_try_def on_feed_bound [OF fd2] start_log_eq w3)
    have "fault e (tick s3) = None" "fault e (tick s3 + 4) = None"
      unfolding t3 using a by (simp_all add: add.commute)
    from write_log_ok_ex [OF this, of ?stop "stopped_msg obj"] obtain s4 where
      w4: "write_log e ?stop (stopped_msg obj) s3 = (Inr (), s4)"
      and c4': "content (files s4) ?stop = content (files s3) ?stop @
          log_line (stamp e (tick s3 + 3)) (stopped_msg obj)"
      by blast
    have "tick s3 + 3 = tick s + 11" using t3 by simp
    with c4' have c4: "content (files s4) ?stop = content (files s3) ?stop @
          log_line (stamp e (tick s + 11)) (stopped_msg obj)" by simp
    note f4 = write_log_framed [OF w4]
    have m: "main e s = Some (Inl x, s4)"
      unfolding main_eq [OF assms]
      by (simp add: tr on_feed_bound [OF fd3] stop_log_eq w4 try_finally_simps)
    from write_log_frame(3) [OF w3] obtain cs3 where
      k3: "calls s3 = calls ?s2 @ cs3" "opened cs3 = [?start]" by blast
    from write_log_frame(3) [OF w4] obtain cs4 where
      k4: "calls s4 = calls s3 @ cs4" "opened cs4 = [?stop]" by blast
    have o: "opened (drop (length (calls s)) (calls s4)) = [?start, ?stop]"
      unfolding k4(1) k3(1) by (simp add: s1 opened_append k3(2) k4(2))
    have "content (files s3) ?stop = content (files s) ?stop"
      using framed_content [OF f3, of ?stop] d by (simp add: s1)
    moreover have "content (files s4) ?start = content (files s3) ?start"
      using framed_content [OF f4, of ?start] d by simp
    moreover have "files s4 ?run = files s ?run"
      using write_log_frame(2) [OF w4, of ?run] write_log_frame(2) [OF w3, of ?run] d
      by (simp add: s1)
    ultimately show "\<exists>s'. main e s = Some (Inl x, s') \<and>
               opened (drop (length (calls s)) (calls s')) = [?start, ?stop] \<and>
               content (files s') ?stop =
                 content (files s) ?stop @ log_line (stamp e (tick s + 11)) (stopped_msg obj) \<and>
               content (files s') ?start = content (files s) ?start \<and>
               files s' ?run = files s ?run"
      using m o c4 c3 by simp
  }
qed

theorem stop_log_after_failed_start_witness:
  "(\<exists>s'. main (demo_env demo_argv (fault_at 2 OSError)) fresh = Some (Inl OSError, s') \<and>
      content (files s') ''/tmp/x/stop.log'' =
        ''2023-11-14 22:13:26: End logging 100: Program stopped'' @ [CHR 0x0A] \<and>
      files s' ''/tmp/x/start.log'' = None \<and>
      files s' ''/tmp/x/1700000000_100_run.log'' = None) \<and>
   (\<exists>s'. main (demo_env demo_argv (fault_at 6 OSError)) fresh = Some (Inl OSError, s') \<and>
      content (files s') ''/tmp/x/stop.log'' =
        ''2023-11-14 22:13:31: End logging 100: Program stopped'' @ [CHR 0x0A] \<and>
      content (files s') ''/tmp/x/start.log'' = [] \<and>
      files s' ''/tmp/x/1700000000_100_run.log'' = None)"
proof -
  let ?a = "demo_env demo_argv (fault_at 2 OSError)"
  let ?b = "demo_env demo_argv (fault_at 6 OSError)"
  have ia: "init ?a (argv ?a ! 1) fresh = (demo_feed, fresh\<lparr>calls := [GetPid, Time]\<rparr>)"
    unfolding demo_argv_simps(2) by (rule demo_init)
  have ib: "init ?b (argv ?b ! 1) fresh = (demo_feed, fresh\<lparr>calls := [GetPid, Time]\<rparr>)"
    unfolding demo_argv_simps(2) by (rule demo_init)
  have ha: "fault ?a (tick fresh + 2) = Some OSError \<and> fault ?a (tick fresh + 3) = None \<and>
      fault ?a (tick fresh + 7) = None"
    by (simp add: demo_env_def fault_at_def fresh_def tick_def)
  have hb: "fault ?b (tick fresh + 2) = None \<and> fault ?b (tick fresh + 6) = Some OSError \<and>
      fault ?b (tick fresh + 8) = None \<and> fault ?b (tick fresh + 12) = None"
    by (simp add: demo_env_def fault_at_def fresh_def tick_def)
  from stop_log_after_failed_start [OF demo_argv_simps(1) ia, of OSError] ha
  have a: "\<exists>s'. main ?a fresh = Some (Inl OSError, s') \<and>
      content (files s') ''/tmp/x/stop.log'' =
        ''2023-11-14 22:13:26: End logging 100: Program stopped'' @ [CHR 0x0A] \<and>
      files s' ''/tmp/x/start.log'' = None \<and>
      files s' ''/tmp/x/1700000000_100_run.log'' = None"
    by (auto simp: demo_simps msg_simps)
  from stop_log_after_failed_start [OF demo_argv_simps(1) ib, of OSError] hb
  have b: "\<exists>s'. main ?b fresh = Some (Inl OSError, s') \<and>
      content (files s') ''/tmp/x/stop.log'' =
        ''2023-11-14 22:13:31: End logging 100: Program stopped'' @ [CHR 0x0A] \<and>
      content (files s') ''/tmp/x/start.log'' = [] \<and>
      files s' ''/tmp/x/1700000000_100_run.log'' = None"
    by (auto simp: demo_simps msg_simps)
  from a b show ?thesis by blast
qed

end
